theory Spec2Isabelle
  imports Main "HOL-Library.Sublist"
begin

section \<open>Python strings\<close>

text \<open>
  A Python \<^verbatim>\<open>str\<close> is modelled as a \<^typ>\<open>string\<close>, a list of code points below 256;
  DNS names and record contents are ASCII text. The operations below are the ones
  \<^verbatim>\<open>powerdns_record.py\<close> applies to record names and record contents.
\<close>

definition endswith :: "string \<Rightarrow> char \<Rightarrow> bool" where
  "endswith s c = (case rev s of [] \<Rightarrow> False | x # _ \<Rightarrow> x = c)"

definition startswith :: "string \<Rightarrow> char \<Rightarrow> bool" where
  "startswith s c = (case s of [] \<Rightarrow> False | x # _ \<Rightarrow> x = c)"

definition lstrip :: "char \<Rightarrow> string \<Rightarrow> string" where
  "lstrip c s = dropWhile (\<lambda>x. x = c) s"

definition rstrip :: "char \<Rightarrow> string \<Rightarrow> string" where
  "rstrip c s = rev (dropWhile (\<lambda>x. x = c) (rev s))"

definition strip :: "char \<Rightarrow> string \<Rightarrow> string" where
  "strip c s = rstrip c (lstrip c s)"

text \<open>
  \<^verbatim>\<open>str.lower()\<close>. A character of the model is a code point below 256: the upper case
  letters among them are A to Z and, in Latin-1, 192 to 222 without the multiplication
  sign 215; each has its lower case letter 32 places further.
\<close>

definition lower_char :: "char \<Rightarrow> char" where
  "lower_char c =
     (let n = (of_char c :: nat)
      in if (65 \<le> n \<and> n \<le> 90) \<or> (192 \<le> n \<and> n \<le> 222 \<and> n \<noteq> 215)
         then char_of (n + 32) else c)"

definition lower :: "string \<Rightarrow> string" where
  "lower s = map lower_char s"

text \<open>\<^verbatim>\<open>s.split(' ')\<close>: every single space separates, empty fields are kept.\<close>

fun split_sp :: "string \<Rightarrow> string list" where
  "split_sp [] = [[]]"
| "split_sp (c # cs) =
     (if c = CHR '' '' then [] # split_sp cs
      else (case split_sp cs of [] \<Rightarrow> [[c]] | p # ps \<Rightarrow> (c # p) # ps))"

text \<open>\<^verbatim>\<open>' '.join(parts)\<close>.\<close>

fun join_sp :: "string list \<Rightarrow> string" where
  "join_sp [] = []"
| "join_sp [p] = p"
| "join_sp (p # q # ps) = p @ CHR '' '' # join_sp (q # ps)"

section \<open>Errors\<close>

text \<open>
  The exceptions that can leave \<^verbatim>\<open>ensure\<close>. \<^verbatim>\<open>PowerDNSError\<close> carries url, status code
  and message; \<^verbatim>\<open>module.fail_json\<close> ends the invocation with one of three messages
  (\<^verbatim>\<open>Could not create|update|delete record {name}: HTTP {code}: {err}\<close>), kept here as
  the message kind and its three arguments. \<^verbatim>\<open>OtherException\<close> stands for whatever
  else the client raises (a connection error, a missing key in the response).
\<close>

datatype fail_kind = CouldNotCreate | CouldNotUpdate | CouldNotDelete

datatype py_error =
    PowerDNSError string int string
  | FailJson fail_kind string int string
  | TypeError
  | IndexError
  | OtherException string

section \<open>The content comparator\<close>

definition serial :: "string \<Rightarrow> py_error + string" where
  "serial content =
     (let parts = split_sp content
      in if 2 < length parts then Inr (parts ! 2) else Inl IndexError)"

definition ignore_serial :: "string \<Rightarrow> string" where
  "ignore_serial content =
     (let parts = split_sp content in join_sp (take 2 parts @ drop 3 parts))"

definition matches_existing_content ::
    "string option \<Rightarrow> string \<Rightarrow> string list \<Rightarrow> py_error + bool" where
  "matches_existing_content rtype content existing_content =
     (if rtype = Some ''SOA'' then
        (case serial content of
           Inl e \<Rightarrow> Inl e
         | Inr s \<Rightarrow>
             if s = ''0''
             then Inr (ignore_serial content \<in> set (map ignore_serial existing_content))
             else Inr (content \<in> set existing_content))
      else Inr (content \<in> set existing_content))"

section \<open>Recordsets, module parameters and the client\<close>

record rr_entry =
  e_content :: string
  e_disabled :: bool

text \<open>
  What \<^verbatim>\<open>get_record\<close> returns: the entries under \<^verbatim>\<open>records\<close> and \<^verbatim>\<open>record.get('ttl', None)\<close>.
  A recordset that does not exist is \<^verbatim>\<open>dict(records=[], comments=[])\<close>: no entry, no ttl.
\<close>

record rrset =
  records :: "rr_entry list"
  rr_ttl :: "int option"

datatype state = Present | Absent

text \<open>
  \<^verbatim>\<open>module.params\<close> and \<^verbatim>\<open>module.check_mode\<close>. \<^verbatim>\<open>content\<close> and \<^verbatim>\<open>type\<close> are not
  required and have no default, so each may be \<^verbatim>\<open>None\<close>; \<^verbatim>\<open>state\<close> is restricted to its
  two choices by the argument specification.
\<close>

record ansible_module =
  p_content :: "string list option"
  p_disabled :: bool
  p_exclusive :: bool
  p_name :: string
  p_type :: "string option"
  p_set_ptr :: bool
  p_ttl :: int
  p_zone :: string
  p_server :: string
  p_state :: state
  check_mode :: bool

text \<open>
  \<^verbatim>\<open>ensure(module, pdns_client)\<close> receives the client as an argument and uses three of
  its methods. Each takes the remote state and returns its result (or the exception it
  raised) with the new remote state. Arguments in the order server, zone, name, type
  (then content, disabled, ttl, set_ptr for \<^verbatim>\<open>create_record\<close>). The content handed to
  \<^verbatim>\<open>create_record\<close> is \<^verbatim>\<open>None\<close>, a list, or a Python set; a set is given as the list
  of its elements in iteration order.
\<close>

record 's pdns_client =
  get_record :: "string \<Rightarrow> string \<Rightarrow> string \<Rightarrow> string option \<Rightarrow> 's \<Rightarrow> (py_error + rrset) \<times> 's"
  create_record :: "string \<Rightarrow> string \<Rightarrow> string \<Rightarrow> string option \<Rightarrow> string list option \<Rightarrow>
                      bool \<Rightarrow> int \<Rightarrow> bool \<Rightarrow> 's \<Rightarrow> (py_error + unit) \<times> 's"
  delete_record :: "string \<Rightarrow> string \<Rightarrow> string \<Rightarrow> string option \<Rightarrow> 's \<Rightarrow> (py_error + unit) \<times> 's"

section \<open>The client's own helpers\<close>

definition make_canonical :: "string \<Rightarrow> string" where
  "make_canonical name = (if \<not> endswith name CHR ''.'' then name @ ''.'' else name)"

text \<open>The \<^verbatim>\<open>records\<close> list that \<^verbatim>\<open>_get_request_data\<close> builds from \<^verbatim>\<open>content\<close>.\<close>

definition request_records :: "string list option \<Rightarrow> bool \<Rightarrow> rr_entry list" where
  "request_records content disabled =
     (case content of
        None \<Rightarrow> []
      | Some c \<Rightarrow> if c = [] then [] else map (\<lambda>r. \<lparr>e_content = r, e_disabled = disabled\<rparr>) c)"

section \<open>The reconciler\<close>

text \<open>Lines 311-315: the body of the loop that double-quotes a TXT item.\<close>

definition txt_quote :: "string \<Rightarrow> string" where
  "txt_quote item =
     (if \<not> (startswith item CHR 0x22 \<and> endswith item CHR 0x22)
      then CHR 0x22 # strip CHR 0x22 item @ [CHR 0x22]
      else item)"

text \<open>Lines 301-315: \<^verbatim>\<open>if content:\<close> skips both \<^verbatim>\<open>None\<close> and the empty list.\<close>

definition sanitize :: "string option \<Rightarrow> string list option \<Rightarrow> string list option" where
  "sanitize rtype content =
     (case content of
        None \<Rightarrow> None
      | Some c \<Rightarrow>
          if c = [] then Some c
          else
            (let c1 = (if rtype = Some ''AAAA'' then map lower c else c);
                 c2 = (if rtype = Some ''TXT'' then map txt_quote c1 else c1)
             in Some c2))"

text \<open>The \<^verbatim>\<open>except PowerDNSError as e: module.fail_json(...)\<close> clause of each try block.\<close>

fun except_fail_json :: "fail_kind \<Rightarrow> string \<Rightarrow> py_error \<Rightarrow> py_error" where
  "except_fail_json k name (PowerDNSError url code msg) = FailJson k name code msg"
| "except_fail_json k name e = e"

text \<open>
  The try block of lines 324-332, 351-359 and 375-383: unless in check mode call
  \<^verbatim>\<open>create_record\<close>, then return \<^verbatim>\<open>True\<close> and the recordset read again.
\<close>

definition create_and_read ::
    "'s pdns_client \<Rightarrow> ansible_module \<Rightarrow> fail_kind \<Rightarrow> string \<Rightarrow> string \<Rightarrow> string list option \<Rightarrow>
     's \<Rightarrow> (py_error + bool \<times> rrset option) \<times> 's" where
  "create_and_read pdns_client module k zone_name name record_content s =
     (case (if \<not> check_mode module
            then create_record pdns_client (p_server module) zone_name name (p_type module)
                   record_content (p_disabled module) (p_ttl module) (p_set_ptr module) s
            else (Inr (), s)) of
        (Inl e, s1) \<Rightarrow> (Inl (except_fail_json k name e), s1)
      | (Inr u, s1) \<Rightarrow>
          (case get_record pdns_client (p_server module) zone_name name (p_type module) s1 of
             (Inl e, s2) \<Rightarrow> (Inl (except_fail_json k name e), s2)
           | (Inr r, s2) \<Rightarrow> (Inr (True, Some r), s2)))"

text \<open>The try block of lines 363-370: delete the whole recordset.\<close>

definition delete_all ::
    "'s pdns_client \<Rightarrow> ansible_module \<Rightarrow> string \<Rightarrow> string \<Rightarrow>
     's \<Rightarrow> (py_error + bool \<times> rrset option) \<times> 's" where
  "delete_all pdns_client module zone_name name s =
     (case (if \<not> check_mode module
            then delete_record pdns_client (p_server module) zone_name name (p_type module) s
            else (Inr (), s)) of
        (Inl e, s1) \<Rightarrow> (Inl (except_fail_json CouldNotDelete name e), s1)
      | (Inr u, s1) \<Rightarrow> (Inr (True, None), s1))"

text \<open>
  Lines 334-337: the loop that collects the items to add. \<^verbatim>\<open>acc\<close> is \<^verbatim>\<open>record_content\<close>;
  the comparator runs first (and may raise), the ttl test second.
\<close>

fun collect_items ::
    "string option \<Rightarrow> string list \<Rightarrow> int option \<Rightarrow> int \<Rightarrow> string list \<Rightarrow> string list \<Rightarrow>
     py_error + string list" where
  "collect_items rtype existing_content rttl ttl acc [] = Inr acc"
| "collect_items rtype existing_content rttl ttl acc (item # rest) =
     (case matches_existing_content rtype item existing_content of
        Inl e \<Rightarrow> Inl e
      | Inr m \<Rightarrow>
          collect_items rtype existing_content rttl ttl
            (if \<not> m \<or> rttl \<noteq> Some ttl then acc @ [item] else acc) rest)"

text \<open>
  Lines 317-359, \<^verbatim>\<open>state == 'present'\<close>. \<^verbatim>\<open>set_iter xs\<close> is the order in which Python
  iterates \<^verbatim>\<open>set(xs)\<close>; \<^verbatim>\<open>len(set(xs))\<close> is the number of distinct elements.
\<close>

definition ensure_present ::
    "(string list \<Rightarrow> string list) \<Rightarrow> 's pdns_client \<Rightarrow> ansible_module \<Rightarrow> string \<Rightarrow> string \<Rightarrow>
     rrset \<Rightarrow> string list option \<Rightarrow> 's \<Rightarrow> (py_error + bool \<times> rrset option) \<times> 's" where
  "ensure_present set_iter pdns_client module zone_name name record content s =
     (let existing_content = map e_content (records record) in
      if existing_content = [] then
        create_and_read pdns_client module CouldNotCreate zone_name name content s
      else
        (case content of
           None \<Rightarrow> (Inl TypeError, s)
         | Some c \<Rightarrow>
             (case collect_items (p_type module) existing_content (rr_ttl record)
                     (p_ttl module) [] c of
                Inl e \<Rightarrow> (Inl e, s)
              | Inr added \<Rightarrow>
                  (let record_content =
                         (if length (remdups c) < length (remdups existing_content)
                             \<and> p_exclusive module
                          then c else added)
                   in if 0 < length record_content then
                        (let as_set = set_iter (record_content @ c);
                             payload =
                               (if \<not> p_exclusive module
                                then existing_content @
                                       filter (\<lambda>item. item \<notin> set existing_content) as_set
                                else as_set)
                         in create_and_read pdns_client module CouldNotUpdate zone_name name
                              (Some payload) s)
                      else (Inr (False, Some record), s)))))"

text \<open>
  Lines 360-391, \<^verbatim>\<open>state == 'absent'\<close>. The second try block of the non-exclusive branch
  (lines 384-391, \<^verbatim>\<open>delete_record\<close>) follows a try block that always returns or fails, so
  control never reaches it.
\<close>

definition ensure_absent ::
    "'s pdns_client \<Rightarrow> ansible_module \<Rightarrow> string \<Rightarrow> string \<Rightarrow>
     rrset \<Rightarrow> string list option \<Rightarrow> 's \<Rightarrow> (py_error + bool \<times> rrset option) \<times> 's" where
  "ensure_absent pdns_client module zone_name name record content s =
     (let existing_content = map e_content (records record) in
      if existing_content \<noteq> [] \<and> p_exclusive module then
        delete_all pdns_client module zone_name name s
      else if existing_content \<noteq> [] \<and> \<not> p_exclusive module then
        (case content of
           None \<Rightarrow> (Inl TypeError, s)
         | Some c \<Rightarrow>
             (let record_content = filter (\<lambda>item. item \<notin> set c) existing_content
              in if length record_content \<noteq> length existing_content then
                   create_and_read pdns_client module CouldNotDelete zone_name name
                     (Some record_content) s
                 else (Inr (False, Some record), s)))
      else (Inr (False, Some record), s))"

text \<open>Lines 287-295: the record name and zone name that the client is called with.\<close>

definition zone_name_of :: "ansible_module \<Rightarrow> string" where
  "zone_name_of module =
     (if endswith (p_zone module) CHR ''.'' then rstrip CHR ''.'' (p_zone module)
      else p_zone module)"

definition name_of :: "ansible_module \<Rightarrow> string" where
  "name_of module =
     (let name = (if endswith (p_name module) CHR ''.'' then rstrip CHR ''.'' (p_name module)
                  else p_name module);
          zone_name = zone_name_of module
      in if \<not> sublist zone_name name then name @ ''.'' @ zone_name else name)"

text \<open>Lines 275-393.\<close>

definition ensure ::
    "(string list \<Rightarrow> string list) \<Rightarrow> 's pdns_client \<Rightarrow> ansible_module \<Rightarrow>
     's \<Rightarrow> (py_error + bool \<times> rrset option) \<times> 's" where
  "ensure set_iter pdns_client module s =
     (let name = name_of module; zone_name = zone_name_of module
      in case get_record pdns_client (p_server module) zone_name name (p_type module) s of
           (Inl e, s1) \<Rightarrow> (Inl e, s1)
         | (Inr record, s1) \<Rightarrow>
             (let content = sanitize (p_type module) (p_content module)
              in case p_state module of
                   Present \<Rightarrow>
                     ensure_present set_iter pdns_client module zone_name name record content s1
                 | Absent \<Rightarrow>
                     ensure_absent pdns_client module zone_name name record content s1))"

text \<open>
  What a Python set guarantees about its iteration: every element once. Nothing else
  about the order is assumed.
\<close>

definition set_iteration :: "(string list \<Rightarrow> string list) \<Rightarrow> bool" where
  "set_iteration set_iter = (\<forall>xs. distinct (set_iter xs) \<and> set (set_iter xs) = set xs)"

section \<open>Observing the calls\<close>

datatype call =
    GetRecord string string string "string option"
  | CreateRecord string string string "string option" "string list option" bool int bool
  | DeleteRecord string string string "string option"

fun is_read :: "call \<Rightarrow> bool" where
  "is_read (GetRecord server zone name rtype) = True"
| "is_read c = False"

text \<open>A client that behaves as \<open>c\<close> does and appends every call to a log.\<close>

definition logged :: "'s pdns_client \<Rightarrow> ('s \<times> call list) pdns_client" where
  "logged c =
     \<lparr> get_record = (\<lambda>server zone name rtype (s, log).
         (case get_record c server zone name rtype s of
            (r, s1) \<Rightarrow> (r, (s1, log @ [GetRecord server zone name rtype])))),
       create_record = (\<lambda>server zone name rtype content disabled ttl set_ptr (s, log).
         (case create_record c server zone name rtype content disabled ttl set_ptr s of
            (r, s1) \<Rightarrow>
              (r, (s1, log @ [CreateRecord server zone name rtype content disabled ttl set_ptr])))),
       delete_record = (\<lambda>server zone name rtype (s, log).
         (case delete_record c server zone name rtype s of
            (r, s1) \<Rightarrow> (r, (s1, log @ [DeleteRecord server zone name rtype])))) \<rparr>"

section \<open>A remote that stores what it is sent\<close>

text \<open>
  The remote state as a table of recordsets keyed by server, zone, canonical name and
  type. The three client methods over it: \<^verbatim>\<open>get_record\<close> returns the stored recordset
  or the empty one, \<^verbatim>\<open>create_record\<close> (changetype REPLACE) stores the submitted records
  with the submitted ttl, and removes the recordset when no record is submitted,
  \<^verbatim>\<open>delete_record\<close> (changetype DELETE) removes it. No call fails.
\<close>

type_synonym store = "string \<times> string \<times> string \<times> string option \<Rightarrow> rrset option"

definition store_client :: "store pdns_client" where
  "store_client =
     \<lparr> get_record = (\<lambda>server zone name rtype st.
         (Inr (case st (server, zone, make_canonical name, rtype) of
                 None \<Rightarrow> \<lparr>records = [], rr_ttl = None\<rparr>
               | Some r \<Rightarrow> r), st)),
       create_record = (\<lambda>server zone name rtype content disabled ttl set_ptr st.
         (Inr (),
          (if request_records content disabled = []
           then st((server, zone, make_canonical name, rtype) := None)
           else st((server, zone, make_canonical name, rtype) :=
                  Some \<lparr>records = request_records content disabled, rr_ttl = Some ttl\<rparr>)))),
       delete_record = (\<lambda>server zone name rtype st.
         (Inr (), st((server, zone, make_canonical name, rtype) := None))) \<rparr>"

text \<open>
  The key an invocation reads and writes, the recordset stored under it, and the table
  after a \<^verbatim>\<open>create_record\<close> with a given content.
\<close>

definition key_of :: "ansible_module \<Rightarrow> string \<times> string \<times> string \<times> string option" where
  "key_of m = (p_server m, zone_name_of m, make_canonical (name_of m), p_type m)"

definition stored :: "store \<Rightarrow> ansible_module \<Rightarrow> rrset" where
  "stored st m = (case st (key_of m) of None \<Rightarrow> \<lparr>records = [], rr_ttl = None\<rparr> | Some r \<Rightarrow> r)"

definition written :: "store \<Rightarrow> ansible_module \<Rightarrow> string list option \<Rightarrow> store" where
  "written st m payload =
     (if request_records payload (p_disabled m) = [] then st(key_of m := None)
      else st(key_of m :=
             Some \<lparr>records = request_records payload (p_disabled m), rr_ttl = Some (p_ttl m)\<rparr>))"

section \<open>Vocabulary of the properties\<close>

text \<open>The number of separators a name ends with.\<close>

definition trailing_dots :: "string \<Rightarrow> nat" where
  "trailing_dots s = length (takeWhile (\<lambda>c. c = CHR ''.'') (rev s))"

text \<open>
  A value wrapped in exactly one pair of double quotes: it starts and ends with a
  quote, and what lies between neither starts nor ends with one.
\<close>

definition quoted_once :: "string \<Rightarrow> bool" where
  "quoted_once s =
     (2 \<le> length s \<and> startswith s CHR 0x22 \<and> endswith s CHR 0x22 \<and>
      \<not> startswith (butlast (tl s)) CHR 0x22 \<and> \<not> endswith (butlast (tl s)) CHR 0x22)"

text \<open>
  The comparator is exact string membership for an item: the type is not SOA, or the
  item has a serial field and that field is not 0.
\<close>

definition exact_item :: "string option \<Rightarrow> string \<Rightarrow> bool" where
  "exact_item rtype item =
     (if rtype = Some ''SOA''
      then (case serial item of Inl e \<Rightarrow> False | Inr s \<Rightarrow> s \<noteq> ''0'')
      else True)"

text \<open>A string without the separator of \<^verbatim>\<open>split(' ')\<close>.\<close>

definition space_free :: "string \<Rightarrow> bool" where
  "space_free s = (CHR '' '' \<notin> set s)"

text \<open>
  The fields of the spec, "whitespace-separated": the maximal runs of characters that
  are not whitespace (space, tab, line feed, vertical tab, form feed, carriage return).
  The spec's serial is the third of them, and the spec's content without its serial the
  others. These follow the spec's words, to be compared with \<open>serial\<close> and
  \<open>ignore_serial\<close> of the source.
\<close>

definition is_space :: "char \<Rightarrow> bool" where
  "is_space c = (c \<in> set [CHR '' '', CHR 0x09, CHR 0x0A, CHR 0x0B, CHR 0x0C, CHR 0x0D])"

fun split_ws :: "string \<Rightarrow> string list" where
  "split_ws [] = [[]]"
| "split_ws (c # cs) =
     (if is_space c then [] # split_ws cs
      else (case split_ws cs of [] \<Rightarrow> [[c]] | p # ps \<Rightarrow> (c # p) # ps))"

definition whitespace_fields :: "string \<Rightarrow> string list" where
  "whitespace_fields s = filter (\<lambda>w. w \<noteq> []) (split_ws s)"

definition spec_serial :: "string \<Rightarrow> string option" where
  "spec_serial content =
     (if 2 < length (whitespace_fields content) then Some (whitespace_fields content ! 2) else None)"

definition spec_without_serial :: "string \<Rightarrow> string list" where
  "spec_without_serial content = take 2 (whitespace_fields content) @ drop 3 (whitespace_fields content)"

text \<open>Two SOA contents whose fields are separated by tabs.\<close>

definition tabbed_zero :: string where
  "tabbed_zero = ''ns1'' @ CHR 0x09 # ''hostmaster'' @ CHR 0x09 # ''0'' @ CHR 0x09 # ''3600''"

definition tabbed_stored :: string where
  "tabbed_stored = ''ns1'' @ CHR 0x09 # ''hostmaster'' @ CHR 0x09 # ''99'' @ CHR 0x09 # ''3600''"

text \<open>
  Two SOA contents that have a serial field each and agree on every other field.
\<close>

definition differ_only_in_serial :: "string \<Rightarrow> string \<Rightarrow> bool" where
  "differ_only_in_serial a b =
     (2 < length (split_sp a) \<and> 2 < length (split_sp b) \<and>
      take 2 (split_sp a) = take 2 (split_sp b) \<and> drop 3 (split_sp a) = drop 3 (split_sp b))"

text \<open>
  The calls an invocation makes for its module parameters, and the same calls as log
  entries.
\<close>

abbreviation existing_of :: "rrset \<Rightarrow> string list" where
  "existing_of record \<equiv> map e_content (records record)"

abbreviation read_call :: "ansible_module \<Rightarrow> call" where
  "read_call m \<equiv> GetRecord (p_server m) (zone_name_of m) (name_of m) (p_type m)"

abbreviation write_call :: "ansible_module \<Rightarrow> string list option \<Rightarrow> call" where
  "write_call m payload \<equiv>
     CreateRecord (p_server m) (zone_name_of m) (name_of m) (p_type m) payload
       (p_disabled m) (p_ttl m) (p_set_ptr m)"

abbreviation delete_call :: "ansible_module \<Rightarrow> call" where
  "delete_call m \<equiv> DeleteRecord (p_server m) (zone_name_of m) (name_of m) (p_type m)"

abbreviation do_read :: "'s pdns_client \<Rightarrow> ansible_module \<Rightarrow> 's \<Rightarrow> (py_error + rrset) \<times> 's" where
  "do_read c m \<equiv> get_record c (p_server m) (zone_name_of m) (name_of m) (p_type m)"

abbreviation do_write ::
    "'s pdns_client \<Rightarrow> ansible_module \<Rightarrow> string list option \<Rightarrow> 's \<Rightarrow> (py_error + unit) \<times> 's" where
  "do_write c m payload \<equiv>
     create_record c (p_server m) (zone_name_of m) (name_of m) (p_type m) payload
       (p_disabled m) (p_ttl m) (p_set_ptr m)"

abbreviation do_delete :: "'s pdns_client \<Rightarrow> ansible_module \<Rightarrow> 's \<Rightarrow> (py_error + unit) \<times> 's" where
  "do_delete c m \<equiv> delete_record c (p_server m) (zone_name_of m) (name_of m) (p_type m)"

text \<open>The calls an invocation issues, in order, from an empty log.\<close>

definition calls_of ::
    "(string list \<Rightarrow> string list) \<Rightarrow> 's pdns_client \<Rightarrow> ansible_module \<Rightarrow> 's \<Rightarrow> call list" where
  "calls_of set_iter c m s = snd (snd (ensure set_iter (logged c) m (s, [])))"


text \<open>The \<^verbatim>\<open>changed\<close> flag of a finished invocation; none if it raised.\<close>

definition changed_flag :: "(py_error + bool \<times> 'a) \<times> 's \<Rightarrow> bool option" where
  "changed_flag res = (case fst res of Inl e \<Rightarrow> None | Inr (ch, r) \<Rightarrow> Some ch)"


text \<open>
  An invocation that returned, or raised inside the reconciler itself (\<^verbatim>\<open>TypeError\<close>,
  \<^verbatim>\<open>IndexError\<close>): not a failure of the remote.
\<close>

definition local_or_ok :: "py_error + 'a \<Rightarrow> bool" where
  "local_or_ok res = (case res of Inr x \<Rightarrow> True | Inl e \<Rightarrow> e = TypeError \<or> e = IndexError)"


text \<open>A client whose reads never fail.\<close>

definition reads_succeed :: "'s pdns_client \<Rightarrow> bool" where
  "reads_succeed c = (\<forall>server zone name rtype s. \<exists>r s1. get_record c server zone name rtype s = (Inr r, s1))"


text \<open>
  The first example of the module's documentation, with the defaults of the argument
  specification, and a remote without any recordset.
\<close>

definition host01 :: ansible_module where
  "host01 =
     \<lparr> p_content = Some [''192.168.1.234''], p_disabled = False, p_exclusive = True,
       p_name = ''host01.internal.example.com'', p_type = Some ''A'', p_set_ptr = False,
       p_ttl = 86400, p_zone = ''internal.example.com'', p_server = ''localhost'',
       p_state = Present, check_mode = False \<rparr>"

definition no_records :: store where
  "no_records = (\<lambda>k. None)"


text \<open>The same remote holding the recordset of the example, with one entry and with three.\<close>

definition host01_stored :: store where
  "host01_stored =
     no_records((''localhost'', ''internal.example.com'', ''host01.internal.example.com.'', Some ''A'') :=
       Some \<lparr>records = [\<lparr>e_content = ''192.168.1.234'', e_disabled = False\<rparr>], rr_ttl = Some 86400\<rparr>)"

definition host01_three :: store where
  "host01_three =
     no_records((''localhost'', ''internal.example.com'', ''host01.internal.example.com.'', Some ''A'') :=
       Some \<lparr>records = [\<lparr>e_content = ''192.168.1.234'', e_disabled = False\<rparr>,
                       \<lparr>e_content = ''192.168.1.235'', e_disabled = False\<rparr>,
                       \<lparr>e_content = ''192.168.1.236'', e_disabled = False\<rparr>],
             rr_ttl = Some 86400\<rparr>)"

text \<open>A remote holding an SOA recordset under the example's name.\<close>

definition soa_stored :: store where
  "soa_stored =
     no_records((''localhost'', ''internal.example.com'', ''host01.internal.example.com.'', Some ''SOA'') :=
       Some \<lparr>records = [\<lparr>e_content = ''ns1 hostmaster 99 3600'', e_disabled = False\<rparr>],
             rr_ttl = Some 86400\<rparr>)"

section \<open>Strings: facts\<close>

lemma startswith_lstrip: "\<not> startswith (lstrip c s) c"
  by (induction s) (auto simp: lstrip_def startswith_def split: list.splits)

lemma endswith_rstrip: "\<not> endswith (rstrip c s) c"
proof
  assume "endswith (rstrip c s) c"
  then obtain ys where "dropWhile (\<lambda>x. x = c) (rev s) = c # ys"
    by (auto simp: rstrip_def endswith_def split: list.splits)
  with hd_dropWhile [of "\<lambda>x. x = c" "rev s"] show False by simp
qed

lemma rstrip_prefix: "prefix (rstrip c s) s"
proof -
  have "s = rstrip c s @ rev (takeWhile (\<lambda>x. x = c) (rev s))"
    unfolding rstrip_def by (metis rev_append rev_rev_ident takeWhile_dropWhile_id)
  then show ?thesis by (rule prefixI)
qed

lemma startswith_rstrip: "\<not> startswith s c \<Longrightarrow> \<not> startswith (rstrip c s) c"
  using rstrip_prefix [of c s]
  by (auto simp: startswith_def prefix_def split: list.splits)

lemma strip_clean: "\<not> startswith (strip c s) c \<and> \<not> endswith (strip c s) c"
  by (simp add: strip_def endswith_rstrip startswith_rstrip startswith_lstrip)

lemma wrap_ends: "startswith (c # s @ [c]) c \<and> endswith (c # s @ [c]) c"
  by (simp add: startswith_def endswith_def)

section \<open>Name canonicalization\<close>

lemma make_canonical_idem: "make_canonical (make_canonical x) = make_canonical x"
  by (simp add: make_canonical_def endswith_def)

lemma make_canonical_ends: "endswith (make_canonical x) CHR ''.''"
  by (simp add: make_canonical_def endswith_def split: list.splits)

lemma make_canonical_dots: "trailing_dots (make_canonical x) = max 1 (trailing_dots x)"
  by (auto simp add: make_canonical_def endswith_def trailing_dots_def split: list.splits if_splits)

text \<open>
  C8, as the spec states it, asks for exactly one trailing separator on every input.
  A name that already ends with two separators is returned as it is.
\<close>

theorem make_canonical_two_dots_counterexample:
  "make_canonical ''a..'' = ''a..'' \<and> trailing_dots (make_canonical ''a..'') \<noteq> 1"
  by (simp add: make_canonical_def endswith_def trailing_dots_def)

text \<open>
  C8 (amended): name canonicalization is idempotent and its result always ends with the
  separator; the result has as many trailing separators as the input, or one when the
  input has none. So it ends with exactly one separator unless the input already ended
  with several.
\<close>

theorem make_canonical_idempotent_trailing:
  "make_canonical (make_canonical x) = make_canonical x \<and>
   endswith (make_canonical x) CHR ''.'' \<and>
   trailing_dots (make_canonical x) = max 1 (trailing_dots x)"
  by (simp only: make_canonical_idem make_canonical_ends make_canonical_dots simp_thms)

theorem make_canonical_idempotent_trailing_witness:
  "make_canonical ''example.com'' = ''example.com.'' \<and>
   make_canonical ''example.com.'' = ''example.com.'' \<and>
   trailing_dots (make_canonical ''example.com'') = 1"
  using make_canonical_idempotent_trailing [of "''example.com''"]
  by (simp add: make_canonical_def endswith_def trailing_dots_def)

section \<open>TXT normalization\<close>

lemma txt_quote_unquoted:
  "\<not> (startswith x CHR 0x22 \<and> endswith x CHR 0x22) \<Longrightarrow>
   txt_quote x = CHR 0x22 # strip CHR 0x22 x @ [CHR 0x22]"
  by (simp add: txt_quote_def)

lemma txt_quote_quoted:
  "startswith x CHR 0x22 \<and> endswith x CHR 0x22 \<Longrightarrow> txt_quote x = x"
  by (simp add: txt_quote_def)

lemma txt_quote_ends: "startswith (txt_quote x) CHR 0x22 \<and> endswith (txt_quote x) CHR 0x22"
  by (cases "startswith x CHR 0x22 \<and> endswith x CHR 0x22")
     (simp_all only: txt_quote_quoted txt_quote_unquoted wrap_ends simp_thms)

lemma txt_quote_idem: "txt_quote (txt_quote x) = txt_quote x"
  using txt_quote_ends [of x] by (rule txt_quote_quoted)

lemma txt_quote_once:
  "\<not> (startswith x CHR 0x22 \<and> endswith x CHR 0x22) \<Longrightarrow> quoted_once (txt_quote x)"
  using strip_clean [of "CHR 0x22" x]
  by (simp add: txt_quote_unquoted quoted_once_def wrap_ends butlast_append)

lemma sanitize_txt: "sanitize (Some ''TXT'') (Some c) = Some (map txt_quote c)"
  by (simp add: sanitize_def)

text \<open>
  C7, as the spec states it, asks for exactly one pair of quotes on every input. A value
  that already starts and ends with a quote is kept as it is: a doubly quoted value stays
  doubly quoted, and the one-character value made of a single quote stays one character.
\<close>

theorem txt_quote_double_quoted_counterexample:
  "txt_quote [CHR 0x22, CHR 0x22, CHR ''a'', CHR 0x22, CHR 0x22]
     = [CHR 0x22, CHR 0x22, CHR ''a'', CHR 0x22, CHR 0x22] \<and>
   \<not> quoted_once (txt_quote [CHR 0x22, CHR 0x22, CHR ''a'', CHR 0x22, CHR 0x22]) \<and>
   txt_quote [CHR 0x22] = [CHR 0x22] \<and>
   \<not> quoted_once (txt_quote [CHR 0x22])"
  by (simp add: txt_quote_def quoted_once_def startswith_def endswith_def)

text \<open>
  C7 (amended): TXT normalization is idempotent and its result always starts and ends
  with a double quote. A value that does not both start and end with a double quote
  loses all its leading and trailing quotes and is wrapped in exactly one pair; a value
  that starts and ends with a double quote is left unchanged. Every item of a TXT
  content list is normalized this way.
\<close>

theorem txt_quote_idempotent_wraps:
  "txt_quote (txt_quote x) = txt_quote x \<and>
   startswith (txt_quote x) CHR 0x22 \<and> endswith (txt_quote x) CHR 0x22 \<and>
   (\<not> (startswith x CHR 0x22 \<and> endswith x CHR 0x22) \<longrightarrow>
      txt_quote x = CHR 0x22 # strip CHR 0x22 x @ [CHR 0x22] \<and> quoted_once (txt_quote x)) \<and>
   (startswith x CHR 0x22 \<and> endswith x CHR 0x22 \<longrightarrow> txt_quote x = x) \<and>
   sanitize (Some ''TXT'') (Some c) = Some (map txt_quote c)"
  using txt_quote_idem [of x] txt_quote_ends [of x] txt_quote_unquoted [of x]
    txt_quote_once [of x] txt_quote_quoted [of x] sanitize_txt [of c]
  by blast

theorem txt_quote_idempotent_wraps_witness:
  "\<not> (startswith ''hello'' CHR 0x22 \<and> endswith ''hello'' CHR 0x22) \<and>
   txt_quote ''hello'' = CHR 0x22 # ''hello'' @ [CHR 0x22] \<and>
   quoted_once (txt_quote ''hello'') \<and>
   txt_quote (CHR 0x22 # ''hello'' @ [CHR 0x22]) = CHR 0x22 # ''hello'' @ [CHR 0x22]"
  using txt_quote_idempotent_wraps [of "''hello''" "[]"]
    txt_quote_idempotent_wraps [of "CHR 0x22 # ''hello'' @ [CHR 0x22]" "[]"]
  by (simp add: txt_quote_def quoted_once_def startswith_def endswith_def strip_def
      lstrip_def rstrip_def)

section \<open>The comparator: facts\<close>

lemma matches_non_soa:
  "rtype \<noteq> Some ''SOA'' \<Longrightarrow>
   matches_existing_content rtype content existing = Inr (content \<in> set existing)"
  by (simp add: matches_existing_content_def)

lemma matches_soa_zero:
  "serial content = Inr ''0'' \<Longrightarrow>
   matches_existing_content (Some ''SOA'') content existing =
     Inr (ignore_serial content \<in> set (map ignore_serial existing))"
  by (simp add: matches_existing_content_def)

lemma matches_soa_nonzero:
  "serial content = Inr s \<Longrightarrow> s \<noteq> ''0'' \<Longrightarrow>
   matches_existing_content (Some ''SOA'') content existing = Inr (content \<in> set existing)"
  by (simp add: matches_existing_content_def)

lemma differ_only_ignore_serial:
  "differ_only_in_serial a b \<Longrightarrow> ignore_serial a = ignore_serial b"
  by (simp add: differ_only_in_serial_def ignore_serial_def Let_def)

lemma matches_soa_wildcard:
  assumes "serial content = Inr ''0''" "e \<in> set existing" "differ_only_in_serial e content"
  shows "matches_existing_content (Some ''SOA'') content existing = Inr True"
proof -
  have "ignore_serial e = ignore_serial content"
    using assms(3) by (rule differ_only_ignore_serial)
  moreover have "ignore_serial e \<in> ignore_serial ` set existing"
    using assms(2) by (rule imageI)
  ultimately have "ignore_serial content \<in> set (map ignore_serial existing)"
    by simp
  with assms(1) show ?thesis by (simp add: matches_soa_zero)
qed

lemma matches_member:
  assumes "rtype = Some ''SOA'' \<longrightarrow> 3 \<le> length (split_sp content)"
    and "content \<in> set existing"
  shows "matches_existing_content rtype content existing = Inr True"
proof (cases "rtype = Some ''SOA''")
  case False
  with assms(2) show ?thesis by (simp add: matches_non_soa)
next
  case True
  with assms(1) have len: "2 < length (split_sp content)" by simp
  then have ser: "serial content = Inr (split_sp content ! 2)"
    by (simp add: serial_def)
  show ?thesis
  proof (cases "split_sp content ! 2 = ''0''")
    case True
    with ser assms(2) \<open>rtype = Some ''SOA''\<close> show ?thesis
      by (simp add: matches_soa_zero)
  next
    case False
    with ser assms(2) \<open>rtype = Some ''SOA''\<close> show ?thesis
      by (simp add: matches_soa_nonzero)
  qed
qed

lemma serial_zero_example: "serial ''ns1 hostmaster 0 3600'' = Inr ''0''"
  by (simp add: serial_def)

lemma serial_five_example: "serial ''ns1 hostmaster 5 3600'' = Inr ''5''"
  by (simp add: serial_def)

lemma differ_only_example:
  "differ_only_in_serial ''ns1 hostmaster 99 3600'' ''ns1 hostmaster 0 3600''"
  by (simp add: differ_only_in_serial_def)

lemma matches_soa_error:
  "serial content = Inl err \<Longrightarrow>
   matches_existing_content (Some ''SOA'') content existing = Inl err"
  by (simp add: matches_existing_content_def)

text \<open>
  \<^verbatim>\<open>split(' ')\<close> and \<^verbatim>\<open>' '.join\<close> on strings written out with their separators, so
  that \<open>serial\<close> and \<open>ignore_serial\<close> are stated on the strings themselves.
\<close>

lemma split_sp_not_Nil [simp]: "split_sp s \<noteq> []"
  by (induction s) (auto split: list.splits)

lemma split_sp_space_free: "space_free a \<Longrightarrow> split_sp a = [a]"
  by (induction a) (auto simp: space_free_def)

lemma split_sp_append: "space_free a \<Longrightarrow> split_sp (a @ CHR '' '' # r) = a # split_sp r"
  by (induction a) (auto simp: space_free_def split: list.splits)

lemma join_sp_Cons: "ps \<noteq> [] \<Longrightarrow> join_sp (p # ps) = p @ CHR '' '' # join_sp ps"
  by (cases ps) simp_all

lemma join_sp_Cons_Cons: "join_sp ((c # p) # ps) = c # join_sp (p # ps)"
  by (cases ps) simp_all

lemma join_split: "join_sp (split_sp s) = s"
proof (induction s)
  case Nil
  then show ?case by simp
next
  case (Cons c cs)
  show ?case
  proof (cases "c = CHR '' ''")
    case True
    with Cons show ?thesis by (simp add: join_sp_Cons)
  next
    case False
    obtain p ps where sp: "split_sp cs = p # ps" by (cases "split_sp cs") simp_all
    with False Cons show ?thesis by (simp add: join_sp_Cons_Cons)
  qed
qed

lemma serial_shape:
  assumes "space_free a" "space_free b" "space_free s" "rest = [] \<or> (\<exists>r. rest = CHR '' '' # r)"
  shows "serial (a @ CHR '' '' # b @ CHR '' '' # s @ rest) = Inr s"
    and "ignore_serial (a @ CHR '' '' # b @ CHR '' '' # s @ rest) = a @ CHR '' '' # b @ rest"
proof -
  have parts: "split_sp (a @ CHR '' '' # b @ CHR '' '' # s @ rest) = a # b # split_sp (s @ rest)"
    using assms(1,2) by (simp add: split_sp_append)
  from assms(4) have tl: "split_sp (s @ rest) = s # (if rest = [] then [] else split_sp (tl rest))"
    using assms(3) by (auto simp: split_sp_space_free split_sp_append)
  show "serial (a @ CHR '' '' # b @ CHR '' '' # s @ rest) = Inr s"
    by (simp add: serial_def parts tl)
  show "ignore_serial (a @ CHR '' '' # b @ CHR '' '' # s @ rest) = a @ CHR '' '' # b @ rest"
    using assms(4) by (auto simp: ignore_serial_def parts tl join_sp_Cons join_split)
qed

lemma serial_short:
  assumes "space_free a" "space_free b"
  shows "serial a = Inl IndexError" "serial (a @ CHR '' '' # b) = Inl IndexError"
    and "ignore_serial a = a" "ignore_serial (a @ CHR '' '' # b) = a @ CHR '' '' # b"
  using assms by (simp_all add: serial_def ignore_serial_def split_sp_space_free split_sp_append)

text \<open>Where the only whitespace is the space, the spec's fields are among those of the source.\<close>

lemma split_ws_spaces_only:
  "\<forall>c\<in>set s. is_space c \<longrightarrow> c = CHR '' '' \<Longrightarrow> split_ws s = split_sp s"
  by (induction s) (auto simp: is_space_def)

lemma whitespace_fields_spaces_only:
  assumes "\<forall>c\<in>set s. is_space c \<longrightarrow> c = CHR '' ''"
  shows "length (whitespace_fields s) \<le> length (split_sp s)"
  unfolding whitespace_fields_def split_ws_spaces_only [OF assms] by (rule length_filter_le)

lemmas field_defs = whitespace_fields_def spec_serial_def spec_without_serial_def is_space_def
  tabbed_zero_def tabbed_stored_def serial_def ignore_serial_def

text \<open>
  C6, as the spec states it, takes the serial to be the third whitespace-separated
  field. The source splits on the single space: a content whose fields are separated by
  tabs has no serial (\<^verbatim>\<open>IndexError\<close>), and after a double space the third field of the
  source is not the spec's serial, so the comparison is exact and a stored entry that
  differs only in the spec's serial does not match.
\<close>

theorem whitespace_serial_counterexample:
  "spec_serial tabbed_zero = Some ''0'' \<and>
   spec_without_serial tabbed_stored = spec_without_serial tabbed_zero \<and>
   matches_existing_content (Some ''SOA'') tabbed_zero [tabbed_stored] = Inl IndexError \<and>
   spec_serial ''ns1  hostmaster 0 3600'' = Some ''0'' \<and>
   spec_without_serial ''ns1  hostmaster 99 3600'' = spec_without_serial ''ns1  hostmaster 0 3600'' \<and>
   matches_existing_content (Some ''SOA'') ''ns1  hostmaster 0 3600'' [''ns1  hostmaster 99 3600'']
     = Inr False"
  by (simp add: field_defs matches_existing_content_def)

text \<open>
  C6 (amended): the fields are those of \<^verbatim>\<open>split(' ')\<close>, separated by single spaces. The
  serial of \<open>a b s rest\<close> is \<open>s\<close> and the content without it is \<open>a b rest\<close>; a content
  of one or two fields has no serial and is its own content without serial. For an SOA
  content whose serial is 0 the comparator tests the content without its serial against
  every existing entry without its serial: it is true exactly when some existing entry
  agrees on all other fields, so true for an entry that differs only in the serial. For
  an SOA content with another serial, and for every other type, the result is
  membership of the content in the existing list; an SOA content without a serial
  raises \<^verbatim>\<open>IndexError\<close>.
\<close>

theorem matches_existing_content_soa_serial:
  "(space_free a \<and> space_free b \<and> space_free s \<and> (rest = [] \<or> (\<exists>r. rest = CHR '' '' # r)) \<longrightarrow>
      serial (a @ CHR '' '' # b @ CHR '' '' # s @ rest) = Inr s \<and>
      ignore_serial (a @ CHR '' '' # b @ CHR '' '' # s @ rest) = a @ CHR '' '' # b @ rest) \<and>
   (space_free a \<and> space_free b \<longrightarrow>
      serial a = Inl IndexError \<and> serial (a @ CHR '' '' # b) = Inl IndexError \<and>
      ignore_serial a = a \<and> ignore_serial (a @ CHR '' '' # b) = a @ CHR '' '' # b) \<and>
   (serial content = Inr ''0'' \<longrightarrow>
      matches_existing_content (Some ''SOA'') content existing =
        Inr (ignore_serial content \<in> set (map ignore_serial existing))) \<and>
   (serial content = Inr ''0'' \<and> e \<in> set existing \<and> differ_only_in_serial e content \<longrightarrow>
      matches_existing_content (Some ''SOA'') content existing = Inr True) \<and>
   (serial content = Inr n \<and> n \<noteq> ''0'' \<longrightarrow>
      matches_existing_content (Some ''SOA'') content existing = Inr (content \<in> set existing)) \<and>
   (serial content = Inl err \<longrightarrow>
      matches_existing_content (Some ''SOA'') content existing = Inl err) \<and>
   (rtype \<noteq> Some ''SOA'' \<longrightarrow>
      matches_existing_content rtype content existing = Inr (content \<in> set existing))"
  using serial_shape [of a b s rest] serial_short [of a b]
    matches_soa_zero [of content existing] matches_soa_wildcard [of content e existing]
    matches_soa_nonzero [of content n existing] matches_soa_error [of content err existing]
    matches_non_soa [of rtype content existing]
  by blast

theorem matches_existing_content_soa_serial_witness:
  "serial ''ns1 hostmaster 0 3600'' = Inr ''0'' \<and>
   ignore_serial ''ns1 hostmaster 0 3600'' = ''ns1 hostmaster 3600'' \<and>
   ignore_serial ''ns1 hostmaster 99 3600'' = ''ns1 hostmaster 3600'' \<and>
   differ_only_in_serial ''ns1 hostmaster 99 3600'' ''ns1 hostmaster 0 3600'' \<and>
   matches_existing_content (Some ''SOA'') ''ns1 hostmaster 0 3600'' [''ns1 hostmaster 99 3600'']
     = Inr True \<and>
   matches_existing_content (Some ''SOA'') ''ns1 hostmaster 0 3600'' [''other admin 7 1'']
     = Inr False \<and>
   matches_existing_content (Some ''SOA'') ''ns1 hostmaster 0 3600'' [''ns1 hostmaster 99 7200'']
     = Inr False \<and>
   serial ''ns1 hostmaster 5 3600'' = Inr ''5'' \<and>
   matches_existing_content (Some ''SOA'') ''ns1 hostmaster 5 3600'' [''ns1 hostmaster 99 3600'']
     = Inr False \<and>
   matches_existing_content (Some ''SOA'') ''ns1 hostmaster'' [''ns1 hostmaster''] = Inl IndexError \<and>
   matches_existing_content (Some ''A'') ''192.0.2.1'' [''192.0.2.1'', ''192.0.2.2''] = Inr True"
  using
    matches_existing_content_soa_serial [of "''ns1''" "''hostmaster''" "''0''" "'' 3600''"
      "''ns1 hostmaster 0 3600''" "[''ns1 hostmaster 99 3600'']" "''ns1 hostmaster 99 3600''"
      "''5''" IndexError "Some ''A''"]
    matches_existing_content_soa_serial [of "''ns1''" "''hostmaster''" "''99''" "'' 3600''"
      "''ns1 hostmaster 0 3600''" "[''other admin 7 1'']" "''other admin 7 1''"
      "''5''" IndexError "Some ''A''"]
    matches_existing_content_soa_serial [of "''ns1''" "''hostmaster''" "''99''" "'' 7200''"
      "''ns1 hostmaster 0 3600''" "[''ns1 hostmaster 99 7200'']" "''x''"
      "''5''" IndexError "Some ''A''"]
    matches_existing_content_soa_serial [of "''other''" "''admin''" "''7''" "'' 1''"
      "''ns1 hostmaster 5 3600''" "[''ns1 hostmaster 99 3600'']" "''x''"
      "''5''" IndexError "Some ''A''"]
    matches_existing_content_soa_serial [of "''ns1''" "''hostmaster''" "''5''" "'' 3600''"
      "''ns1 hostmaster''" "[''ns1 hostmaster'']" "''x''"
      "''5''" IndexError "Some ''SOA''"]
    matches_existing_content_soa_serial [of "''ns1''" "''hostmaster''" "''5''" "'' 3600''"
      "''192.0.2.1''" "[''192.0.2.1'', ''192.0.2.2'']" "''x''"
      "''5''" IndexError "Some ''A''"]
    differ_only_example
  by (simp add: space_free_def)

text \<open>
  C10, as the spec states it, asks for at least three whitespace-separated fields. A
  content of three fields separated by tabs, stored verbatim, does not match: the
  source finds no serial and raises \<^verbatim>\<open>IndexError\<close>.
\<close>

theorem whitespace_fields_counterexample:
  "3 \<le> length (whitespace_fields [CHR ''a'', CHR 0x09, CHR ''b'', CHR 0x09, CHR ''c'']) \<and>
   [CHR ''a'', CHR 0x09, CHR ''b'', CHR 0x09, CHR ''c'']
     \<in> set [[CHR ''a'', CHR 0x09, CHR ''b'', CHR 0x09, CHR ''c'']] \<and>
   matches_existing_content (Some ''SOA'') [CHR ''a'', CHR 0x09, CHR ''b'', CHR 0x09, CHR ''c'']
     [[CHR ''a'', CHR 0x09, CHR ''b'', CHR 0x09, CHR ''c'']] = Inl IndexError"
  by (simp add: field_defs matches_existing_content_def)

text \<open>
  C10 (amended): the comparator is reflexive for every type, and for SOA on every
  content with at least three fields separated by single spaces, as \<^verbatim>\<open>split(' ')\<close>
  counts them: a content that is an element of the existing list matches. This covers
  every content with at least three whitespace-separated fields whose only whitespace
  characters are spaces.
\<close>

theorem matches_existing_content_reflexive:
  "((rtype = Some ''SOA'' \<longrightarrow> 3 \<le> length (split_sp content)) \<and> content \<in> set existing \<longrightarrow>
      matches_existing_content rtype content existing = Inr True) \<and>
   (3 \<le> length (whitespace_fields content) \<and> (\<forall>c\<in>set content. is_space c \<longrightarrow> c = CHR '' '') \<and>
    content \<in> set existing \<longrightarrow>
      matches_existing_content rtype content existing = Inr True)"
proof (intro conjI impI)
  assume "(rtype = Some ''SOA'' \<longrightarrow> 3 \<le> length (split_sp content)) \<and> content \<in> set existing"
  then show "matches_existing_content rtype content existing = Inr True"
    using matches_member [of rtype content existing] by blast
next
  assume a: "3 \<le> length (whitespace_fields content) \<and>
    (\<forall>c\<in>set content. is_space c \<longrightarrow> c = CHR '' '') \<and> content \<in> set existing"
  then have "length (whitespace_fields content) \<le> length (split_sp content)"
    by (intro whitespace_fields_spaces_only) simp
  with a have "3 \<le> length (split_sp content)" by simp
  with a show "matches_existing_content rtype content existing = Inr True"
    using matches_member [of rtype content existing] by blast
qed

theorem matches_existing_content_reflexive_witness:
  "3 \<le> length (split_sp ''ns1 hostmaster 0 3600'') \<and>
   3 \<le> length (whitespace_fields ''ns1 hostmaster 0 3600'') \<and>
   matches_existing_content (Some ''SOA'') ''ns1 hostmaster 0 3600''
     [''ns2 hostmaster 7 3600'', ''ns1 hostmaster 0 3600''] = Inr True \<and>
   matches_existing_content (Some ''SOA'') ''ns1 hostmaster 5 3600''
     [''ns1 hostmaster 5 3600''] = Inr True \<and>
   matches_existing_content None ''192.0.2.1'' [''192.0.2.1''] = Inr True"
  using
    matches_existing_content_reflexive [of "Some ''SOA''" "''ns1 hostmaster 0 3600''"
      "[''ns2 hostmaster 7 3600'', ''ns1 hostmaster 0 3600'']"]
    matches_existing_content_reflexive [of "Some ''SOA''" "''ns1 hostmaster 5 3600''"
      "[''ns1 hostmaster 5 3600'']"]
    matches_existing_content_reflexive [of None "''192.0.2.1''" "[''192.0.2.1'']"]
  by (simp add: field_defs)

section \<open>The logging client\<close>

lemma logged_get [simp]:
  "get_record (logged c) server zone name rtype (s, log) =
     (fst (get_record c server zone name rtype s),
      (snd (get_record c server zone name rtype s), log @ [GetRecord server zone name rtype]))"
  by (simp add: logged_def split: prod.splits)

lemma logged_create [simp]:
  "create_record (logged c) server zone name rtype content disabled ttl set_ptr (s, log) =
     (fst (create_record c server zone name rtype content disabled ttl set_ptr s),
      (snd (create_record c server zone name rtype content disabled ttl set_ptr s),
       log @ [CreateRecord server zone name rtype content disabled ttl set_ptr]))"
  by (simp add: logged_def split: prod.splits)

lemma logged_delete [simp]:
  "delete_record (logged c) server zone name rtype (s, log) =
     (fst (delete_record c server zone name rtype s),
      (snd (delete_record c server zone name rtype s), log @ [DeleteRecord server zone name rtype]))"
  by (simp add: logged_def split: prod.splits)

text \<open>The write block, run to the end.\<close>

lemma create_and_read_ok:
  assumes "\<not> check_mode m"
    and "create_record c (p_server m) z n (p_type m) payload (p_disabled m) (p_ttl m) (p_set_ptr m) s
           = (Inr u, s1)"
    and "get_record c (p_server m) z n (p_type m) s1 = (Inr r, s2)"
  shows "create_and_read c m k z n payload s = (Inr (True, Some r), s2)"
  using assms by (simp add: create_and_read_def)

lemma create_and_read_logged_ok:
  assumes "\<not> check_mode m"
    and "create_record c (p_server m) z n (p_type m) payload (p_disabled m) (p_ttl m) (p_set_ptr m) s
           = (Inr u, s1)"
    and "get_record c (p_server m) z n (p_type m) s1 = (Inr r, s2)"
  shows "create_and_read (logged c) m k z n payload (s, log) =
           (Inr (True, Some r),
            (s2, log @ [CreateRecord (p_server m) z n (p_type m) payload (p_disabled m) (p_ttl m) (p_set_ptr m),
                        GetRecord (p_server m) z n (p_type m)]))"
  using assms by (simp add: create_and_read_def)

lemma create_and_read_logged_first:
  assumes "\<not> check_mode m"
  shows "\<exists>rest. snd (snd (create_and_read (logged c) m k z n payload (s, log))) =
           log @ CreateRecord (p_server m) z n (p_type m) payload (p_disabled m) (p_ttl m) (p_set_ptr m) # rest"
  using assms by (simp add: create_and_read_def split: prod.splits sum.splits)

lemma create_and_read_logged_check:
  assumes "check_mode m"
  shows "snd (snd (create_and_read (logged c) m k z n payload (s, log))) =
           log @ [GetRecord (p_server m) z n (p_type m)]"
  using assms by (simp add: create_and_read_def split: prod.splits sum.splits)

lemma delete_all_logged_check:
  assumes "check_mode m"
  shows "delete_all (logged c) m z n (s, log) = (Inr (True, None), (s, log))"
  using assms by (simp add: delete_all_def)

lemma delete_all_logged_run:
  assumes "\<not> check_mode m"
  shows "snd (snd (delete_all (logged c) m z n (s, log))) = log @ [DeleteRecord (p_server m) z n (p_type m)]"
  using assms by (simp add: delete_all_def split: prod.splits sum.splits)


section \<open>The reconciler, step by step\<close>

lemma ensure_read_failed:
  "do_read c m s = (Inl e, s1) \<Longrightarrow> ensure set_iter c m s = (Inl e, s1)"
  by (simp add: ensure_def)

lemma ensure_present_eq:
  "do_read c m s = (Inr record, s1) \<Longrightarrow> p_state m = Present \<Longrightarrow>
   ensure set_iter c m s =
     ensure_present set_iter c m (zone_name_of m) (name_of m) record
       (sanitize (p_type m) (p_content m)) s1"
  by (simp add: ensure_def)

lemma ensure_absent_eq:
  "do_read c m s = (Inr record, s1) \<Longrightarrow> p_state m = Absent \<Longrightarrow>
   ensure set_iter c m s =
     ensure_absent c m (zone_name_of m) (name_of m) record
       (sanitize (p_type m) (p_content m)) s1"
  by (simp add: ensure_def)

lemma do_read_logged:
  "do_read (logged c) m (s, log) = (fst (do_read c m s), (snd (do_read c m s), log @ [read_call m]))"
  by simp

section \<open>Check mode\<close>

lemma matches_error: "matches_existing_content rtype item existing = Inl e \<Longrightarrow> e = IndexError"
  by (auto simp: matches_existing_content_def serial_def Let_def split: if_splits sum.splits)

lemma collect_items_error:
  "collect_items rtype existing rttl ttl acc items = Inl e \<Longrightarrow> e = IndexError"
  by (induction items arbitrary: acc) (auto split: sum.splits dest: matches_error)

lemma create_and_read_changed:
  "create_and_read c m k z n payload s = (Inr (ch, r), s1) \<Longrightarrow> ch"
  by (auto simp: create_and_read_def split: prod.splits sum.splits if_splits)

lemma delete_all_changed:
  "delete_all c m z n s = (Inr (ch, r), s1) \<Longrightarrow> ch"
  by (auto simp: delete_all_def split: prod.splits sum.splits if_splits)

lemma ensure_present_check_calls:
  assumes "check_mode m"
  shows "snd (snd (ensure_present set_iter (logged c) m z n record content (s, log))) = log \<or>
         snd (snd (ensure_present set_iter (logged c) m z n record content (s, log))) =
           log @ [GetRecord (p_server m) z n (p_type m)]"
  using assms
  by (simp add: ensure_present_def Let_def create_and_read_logged_check
      split: option.splits sum.splits)

lemma ensure_absent_check_calls:
  assumes "check_mode m"
  shows "snd (snd (ensure_absent (logged c) m z n record content (s, log))) = log \<or>
         snd (snd (ensure_absent (logged c) m z n record content (s, log))) =
           log @ [GetRecord (p_server m) z n (p_type m)]"
  using assms
  by (simp add: ensure_absent_def Let_def create_and_read_logged_check delete_all_logged_check
      split: option.splits sum.splits)

lemma check_mode_calls:
  assumes "check_mode m"
  shows "calls_of set_iter c m s = [read_call m] \<or>
         calls_of set_iter c m s = [read_call m, read_call m]"
proof (cases "do_read c m s")
  case (Pair res s1)
  show ?thesis
  proof (cases res)
    case (Inl e)
    with Pair have "do_read (logged c) m (s, []) = (Inl e, (s1, [read_call m]))" by simp
    then have "ensure set_iter (logged c) m (s, []) = (Inl e, (s1, [read_call m]))"
      by (rule ensure_read_failed)
    then show ?thesis by (simp add: calls_of_def)
  next
    case (Inr rset)
    with Pair have rd: "do_read (logged c) m (s, []) = (Inr rset, (s1, [read_call m]))" by simp
    show ?thesis
    proof (cases "p_state m")
      case Present
      from ensure_present_eq [OF rd Present]
        ensure_present_check_calls [OF assms, of set_iter c "zone_name_of m" "name_of m" rset
          "sanitize (p_type m) (p_content m)" s1 "[read_call m]"]
      show ?thesis by (simp add: calls_of_def)
    next
      case Absent
      from ensure_absent_eq [OF rd Absent]
        ensure_absent_check_calls [OF assms, of c "zone_name_of m" "name_of m" rset
          "sanitize (p_type m) (p_content m)" s1 "[read_call m]"]
      show ?thesis by (simp add: calls_of_def)
    qed
  qed
qed

text \<open>The changed flag does not depend on the client, the remote state or check mode.\<close>

lemma ensure_present_flag:
  assumes "ensure_present set_iter c m z n record content s = (Inr (ch, r), s1)"
    and "ensure_present set_iter c' (m\<lparr>check_mode := b\<rparr>) z n record content s' = (Inr (ch', r'), s1')"
  shows "ch' = ch"
  using assms
  by (auto simp: ensure_present_def Let_def split: option.splits sum.splits if_splits
      dest: create_and_read_changed)

lemma ensure_absent_flag:
  assumes "ensure_absent c m z n record content s = (Inr (ch, r), s1)"
    and "ensure_absent c' (m\<lparr>check_mode := b\<rparr>) z n record content s' = (Inr (ch', r'), s1')"
  shows "ch' = ch"
  using assms
  by (auto simp: ensure_absent_def Let_def split: option.splits sum.splits if_splits
      dest: create_and_read_changed delete_all_changed)

lemma names_check_mode [simp]:
  "zone_name_of (m\<lparr>check_mode := b\<rparr>) = zone_name_of m"
  "name_of (m\<lparr>check_mode := b\<rparr>) = name_of m"
  by (simp_all add: zone_name_of_def name_of_def)

lemma check_mode_flag:
  assumes "ensure set_iter c m s = (Inr (ch, r), s1)"
    and "ensure set_iter c (m\<lparr>check_mode := b\<rparr>) s = (Inr (ch', r'), s2)"
  shows "ch' = ch"
proof (cases "do_read c m s")
  case (Pair res s0)
  show ?thesis
  proof (cases res)
    case (Inl e)
    with Pair assms(1) show ?thesis by (simp add: ensure_def)
  next
    case (Inr rset)
    with Pair have rd: "do_read c m s = (Inr rset, s0)" by simp
    then have rd': "do_read c (m\<lparr>check_mode := b\<rparr>) s = (Inr rset, s0)" by simp
    show ?thesis
    proof (cases "p_state m")
      case Present
      with assms ensure_present_eq [OF rd Present, of set_iter]
        ensure_present_eq [OF rd', of set_iter]
      show ?thesis by (auto dest: ensure_present_flag)
    next
      case Absent
      with assms ensure_absent_eq [OF rd Absent, of set_iter]
        ensure_absent_eq [OF rd', of set_iter]
      show ?thesis by (auto dest: ensure_absent_flag)
    qed
  qed
qed

lemma local_or_ok_simps [simp]:
  "local_or_ok (Inr x)" "local_or_ok (Inl TypeError)" "local_or_ok (Inl IndexError)"
  by (simp_all add: local_or_ok_def)

lemma create_and_read_check_ok:
  assumes "check_mode m" "reads_succeed c"
  shows "local_or_ok (fst (create_and_read c m k z n payload s))"
proof -
  from assms(2) obtain r s1 where "get_record c (p_server m) z n (p_type m) s = (Inr r, s1)"
    unfolding reads_succeed_def by blast
  with assms(1) show ?thesis by (simp add: create_and_read_def local_or_ok_def)
qed

lemma check_mode_failures:
  assumes "check_mode m" "reads_succeed c"
  shows "local_or_ok (fst (ensure set_iter c m s))"
proof -
  from assms(2) obtain rset s1 where rd: "do_read c m s = (Inr rset, s1)"
    unfolding reads_succeed_def by blast
  have cr: "\<And>k payload. local_or_ok (fst (create_and_read c m k (zone_name_of m) (name_of m) payload s1))"
    using assms by (rule create_and_read_check_ok)
  show ?thesis
  proof (cases "p_state m")
    case Present
    have "local_or_ok (fst (ensure_present set_iter c m (zone_name_of m) (name_of m) rset
            (sanitize (p_type m) (p_content m)) s1))"
      using cr
      by (auto simp: ensure_present_def Let_def
          split: option.splits sum.splits dest: collect_items_error)
    with ensure_present_eq [OF rd Present, of set_iter] show ?thesis by simp
  next
    case Absent
    have "local_or_ok (fst (ensure_absent c m (zone_name_of m) (name_of m) rset
            (sanitize (p_type m) (p_content m)) s1))"
      using cr assms(1)
      by (auto simp: ensure_absent_def Let_def delete_all_def
          split: option.splits sum.splits)
    with ensure_absent_eq [OF rd Absent, of set_iter] show ?thesis by simp
  qed
qed


lemma changed_flag_simps [simp]:
  "changed_flag (Inl e, s) = None" "changed_flag (Inr (ch, r), s) = Some ch"
  by (simp_all add: changed_flag_def)

lemma changed_flag_SomeD:
  "changed_flag res = Some ch \<Longrightarrow> \<exists>r s. res = (Inr (ch, r), s)"
  by (cases res) (auto simp: changed_flag_def split: sum.splits)

lemma create_and_read_flag: "changed_flag (create_and_read c m k z n payload s) \<noteq> Some False"
  by (auto simp: create_and_read_def split: prod.splits sum.splits if_splits)

lemma delete_all_flag: "changed_flag (delete_all c m z n s) \<noteq> Some False"
  by (auto simp: delete_all_def split: prod.splits sum.splits if_splits)

lemma create_and_read_check_total:
  assumes "check_mode m" "reads_succeed c"
  shows "changed_flag (create_and_read c m k z n payload s) = Some True"
proof -
  from assms(2) obtain r s1 where "get_record c (p_server m) z n (p_type m) s = (Inr r, s1)"
    unfolding reads_succeed_def by blast
  with assms(1) show ?thesis by (simp add: create_and_read_def)
qed

lemma delete_all_check_total:
  assumes "check_mode m"
  shows "changed_flag (delete_all c m z n s) = Some True"
  using assms by (simp add: delete_all_def)

lemma ensure_present_check_same:
  assumes "check_mode m" "reads_succeed c"
    and "changed_flag (ensure_present set_iter c (m\<lparr>check_mode := False\<rparr>) z n rset content s) = Some ch"
  shows "changed_flag (ensure_present set_iter c m z n rset content s) = Some ch"
  using assms(3) create_and_read_check_total [OF assms(1,2)]
    create_and_read_flag [of c "m\<lparr>check_mode := False\<rparr>"]
  by (cases ch) (auto simp: ensure_present_def Let_def split: option.splits sum.splits if_splits)

lemma ensure_absent_check_same:
  assumes "check_mode m" "reads_succeed c"
    and "changed_flag (ensure_absent c (m\<lparr>check_mode := False\<rparr>) z n rset content s) = Some ch"
  shows "changed_flag (ensure_absent c m z n rset content s) = Some ch"
  using assms(3) create_and_read_check_total [OF assms(1,2)] delete_all_check_total [OF assms(1)]
    create_and_read_flag [of c "m\<lparr>check_mode := False\<rparr>"]
    delete_all_flag [of c "m\<lparr>check_mode := False\<rparr>"]
  by (cases ch) (auto simp: ensure_absent_def Let_def split: option.splits sum.splits if_splits)

lemma check_mode_same_flag:
  assumes "check_mode m" "reads_succeed c"
    and "changed_flag (ensure set_iter c (m\<lparr>check_mode := False\<rparr>) s) = Some ch"
  shows "changed_flag (ensure set_iter c m s) = Some ch"
proof -
  from assms(2) obtain rset s0 where rd: "do_read c m s = (Inr rset, s0)"
    unfolding reads_succeed_def by blast
  then have rd': "do_read c (m\<lparr>check_mode := False\<rparr>) s = (Inr rset, s0)" by simp
  show ?thesis
  proof (cases "p_state m")
    case Present
    with assms(3) ensure_present_eq [OF rd', of set_iter]
    have "changed_flag (ensure_present set_iter c (m\<lparr>check_mode := False\<rparr>) (zone_name_of m)
            (name_of m) rset (sanitize (p_type m) (p_content m)) s0) = Some ch"
      by simp
    from ensure_present_check_same [OF assms(1,2) this] ensure_present_eq [OF rd Present, of set_iter]
    show ?thesis by simp
  next
    case Absent
    with assms(3) ensure_absent_eq [OF rd', of set_iter]
    have "changed_flag (ensure_absent c (m\<lparr>check_mode := False\<rparr>) (zone_name_of m)
            (name_of m) rset (sanitize (p_type m) (p_content m)) s0) = Some ch"
      by simp
    from ensure_absent_check_same [OF assms(1,2) this] ensure_absent_eq [OF rd Absent, of set_iter]
    show ?thesis by simp
  qed
qed

lemma reads_succeed_store: "reads_succeed store_client"
  by (simp add: reads_succeed_def store_client_def)

lemma host01_names:
  assumes "p_name m = ''host01.internal.example.com''" "p_zone m = ''internal.example.com''"
  shows "zone_name_of m = ''internal.example.com''"
    and "name_of m = ''host01.internal.example.com''"
  using assms
  by (simp_all add: zone_name_of_def name_of_def endswith_def sublist_code prefix_code)

text \<open>
  C9: in check mode the calls issued are the first read, and at most one more read; no
  \<^verbatim>\<open>create_record\<close> and no \<^verbatim>\<open>delete_record\<close>. The changed flag is the one the same
  invocation reports outside check mode, whenever both return; and with a client whose
  reads succeed, the invocation in check mode ends without a remote failure and reports
  the flag that the invocation outside check mode reports.
\<close>

theorem check_mode_reads_only:
  "check_mode m \<Longrightarrow>
   (calls_of set_iter c m s = [read_call m] \<or> calls_of set_iter c m s = [read_call m, read_call m]) \<and>
   list_all is_read (calls_of set_iter c m s) \<and>
   (\<forall>ch r s1 ch' r' s2.
      ensure set_iter c m s = (Inr (ch, r), s1) \<and>
      ensure set_iter c (m\<lparr>check_mode := False\<rparr>) s = (Inr (ch', r'), s2) \<longrightarrow> ch = ch') \<and>
   (reads_succeed c \<longrightarrow>
      local_or_ok (fst (ensure set_iter c m s)) \<and>
      (\<forall>ch. changed_flag (ensure set_iter c (m\<lparr>check_mode := False\<rparr>) s) = Some ch \<longrightarrow>
         changed_flag (ensure set_iter c m s) = Some ch))"
proof (intro conjI impI allI)
  assume cm: "check_mode m"
  from check_mode_calls [OF cm, of set_iter c s]
  show "calls_of set_iter c m s = [read_call m] \<or> calls_of set_iter c m s = [read_call m, read_call m]" .
  then show "list_all is_read (calls_of set_iter c m s)" by auto
next
  fix ch r s1 ch' r' s2
  assume "ensure set_iter c m s = (Inr (ch, r), s1) \<and>
      ensure set_iter c (m\<lparr>check_mode := False\<rparr>) s = (Inr (ch', r'), s2)"
  then show "ch = ch'" using check_mode_flag [of set_iter c m s ch r s1 False ch' r' s2] by simp
next
  assume "check_mode m" "reads_succeed c"
  then show "local_or_ok (fst (ensure set_iter c m s))" by (rule check_mode_failures)
next
  fix ch
  assume "check_mode m" "reads_succeed c"
    "changed_flag (ensure set_iter c (m\<lparr>check_mode := False\<rparr>) s) = Some ch"
  then show "changed_flag (ensure set_iter c m s) = Some ch" by (rule check_mode_same_flag)
qed



section \<open>Runs on the example\<close>


lemma set_iteration_remdups: "set_iteration remdups"
  by (simp add: set_iteration_def)

lemmas run_defs = ensure_def ensure_present_def ensure_absent_def create_and_read_def delete_all_def
  host01_names sanitize_def store_client_def no_records_def host01_def host01_stored_def Let_def
  make_canonical_def endswith_def request_records_def calls_of_def matches_existing_content_def

text \<open>
  An instance: the documentation's first example in check mode, no recordset stored.
\<close>

theorem check_mode_reads_only_witness:
  "check_mode (host01\<lparr>check_mode := True\<rparr>) \<and>
   calls_of remdups store_client (host01\<lparr>check_mode := True\<rparr>) no_records =
     [read_call host01, read_call host01] \<and>
   reads_succeed store_client \<and>
   changed_flag (ensure remdups store_client host01 no_records) = Some True \<and>
   changed_flag (ensure remdups store_client (host01\<lparr>check_mode := True\<rparr>) no_records) = Some True"
  using check_mode_reads_only [of "host01\<lparr>check_mode := True\<rparr>" remdups store_client no_records]
    reads_succeed_store
  by (simp add: run_defs)

text \<open>
  C4: with state absent and exclusive off, removing the desired entries from the existing
  ones and rewriting the remainder holds (lemma \<open>absent_nonexclusive_existing\<close> below), but
  when nothing remains the recordset is not deleted: the write block is entered with the
  empty list, \<^verbatim>\<open>create_record\<close> is called with it and the invocation returns the
  recordset read again, not \<^verbatim>\<open>None\<close>. The \<^verbatim>\<open>delete_record\<close> block of lines 384-391 is
  never reached. The run on the example, the stored entry being the one to remove:
\<close>

theorem absent_nonexclusive_last_entry:
  "fst (ensure remdups (logged store_client) (host01\<lparr>p_state := Absent, p_exclusive := False\<rparr>)
     (host01_stored, [])) = Inr (True, Some \<lparr>records = [], rr_ttl = None\<rparr>) \<and>
   calls_of remdups store_client (host01\<lparr>p_state := Absent, p_exclusive := False\<rparr>) host01_stored =
     [read_call host01, write_call host01 (Some []), read_call host01]"
  by (simp add: run_defs)

text \<open>
  C5, as the spec states it, has the request rejected before any remote call. The
  reconciler has no such check: with state present, exclusive on and an empty content
  list it reads the recordset, and when there is none it submits the empty list and
  reports a change.
\<close>

theorem present_exclusive_empty_counterexample:
  "p_state (host01\<lparr>p_content := Some []\<rparr>) = Present \<and>
   p_exclusive (host01\<lparr>p_content := Some []\<rparr>) \<and>
   fst (ensure remdups (logged store_client) (host01\<lparr>p_content := Some []\<rparr>) (no_records, []))
     = Inr (True, Some \<lparr>records = [], rr_ttl = None\<rparr>) \<and>
   calls_of remdups store_client (host01\<lparr>p_content := Some []\<rparr>) no_records =
     [read_call host01, write_call host01 (Some []), read_call host01]"
  by (simp add: run_defs)


section \<open>Present, existing recordset\<close>

lemma matches_exact:
  "exact_item rtype item \<Longrightarrow>
   matches_existing_content rtype item existing = Inr (item \<in> set existing)"
  by (auto simp: exact_item_def matches_existing_content_def split: if_splits sum.splits)

lemma collect_items_exact:
  "\<forall>item\<in>set items. exact_item rtype item \<Longrightarrow>
   collect_items rtype existing rttl ttl acc items =
     Inr (acc @ filter (\<lambda>item. item \<notin> set existing \<or> rttl \<noteq> Some ttl) items)"
  by (induction items arbitrary: acc) (simp_all add: matches_exact)

lemma ensure_present_existing_exact:
  assumes "records record \<noteq> []" "\<forall>item\<in>set d. exact_item (p_type m) item"
  shows "ensure_present set_iter c m z n record (Some d) s =
     (let added = filter (\<lambda>item. item \<notin> set (existing_of record) \<or> rr_ttl record \<noteq> Some (p_ttl m)) d;
          record_content =
            (if length (remdups d) < length (remdups (existing_of record)) \<and> p_exclusive m
             then d else added)
      in if record_content \<noteq> [] then
           create_and_read c m CouldNotUpdate z n
             (Some (if \<not> p_exclusive m
                    then existing_of record @
                      filter (\<lambda>item. item \<notin> set (existing_of record)) (set_iter (record_content @ d))
                    else set_iter (record_content @ d))) s
         else (Inr (False, Some record), s))"
  using assms by (simp add: ensure_present_def collect_items_exact Let_def)


lemma write_block_logged:
  assumes "\<not> check_mode m"
    and "ensure set_iter (logged c) m (s, []) =
           create_and_read (logged c) m k (zone_name_of m) (name_of m) payload (s1, [read_call m])"
  shows "(\<exists>rest. calls_of set_iter c m s = read_call m # write_call m payload # rest) \<and>
         (\<forall>u s2 r s3. do_write c m payload s1 = (Inr u, s2) \<and> do_read c m s2 = (Inr r, s3) \<longrightarrow>
            ensure set_iter (logged c) m (s, []) =
              (Inr (True, Some r), (s3, [read_call m, write_call m payload, read_call m])))"
proof (intro conjI allI impI)
  from create_and_read_logged_first [OF assms(1), of c k "zone_name_of m" "name_of m" payload s1 "[read_call m]"]
  show "\<exists>rest. calls_of set_iter c m s = read_call m # write_call m payload # rest"
    by (simp add: calls_of_def assms(2))
next
  fix u s2 r s3
  assume "do_write c m payload s1 = (Inr u, s2) \<and> do_read c m s2 = (Inr r, s3)"
  then show "ensure set_iter (logged c) m (s, []) =
              (Inr (True, Some r), (s3, [read_call m, write_call m payload, read_call m]))"
    using create_and_read_logged_ok [OF assms(1), of c "zone_name_of m" "name_of m" payload s1 u s2 r s3 k "[read_call m]"]
    by (simp add: assms(2))
qed

lemma ensure_present_logged:
  assumes "do_read c m s = (Inr record, s1)" "p_state m = Present"
  shows "ensure set_iter (logged c) m (s, []) =
     ensure_present set_iter (logged c) m (zone_name_of m) (name_of m) record
       (sanitize (p_type m) (p_content m)) (s1, [read_call m])"
proof -
  from assms(1) have "do_read (logged c) m (s, []) = (Inr record, (s1, [read_call m]))" by simp
  from ensure_present_eq [OF this assms(2)] show ?thesis .
qed

lemma ensure_absent_logged:
  assumes "do_read c m s = (Inr record, s1)" "p_state m = Absent"
  shows "ensure set_iter (logged c) m (s, []) =
     ensure_absent (logged c) m (zone_name_of m) (name_of m) record
       (sanitize (p_type m) (p_content m)) (s1, [read_call m])"
proof -
  from assms(1) have "do_read (logged c) m (s, []) = (Inr record, (s1, [read_call m]))" by simp
  from ensure_absent_eq [OF this assms(2)] show ?thesis .
qed



lemmas run_defs2 = run_defs host01_three_def soa_stored_def exact_item_def serial_def ignore_serial_def




section \<open>Present, not exclusive\<close>

text \<open>
  C3 (amended): state present, exclusive off, the recordset exists and the comparator is
  exact membership on each item of the desired content (\<open>d\<close>, as normalized for its
  type). If some desired item is not among the existing
  ones, or the ttl differs and the desired content is not empty, the reconciler (outside
  check mode) submits the existing entries, in their order and with their duplicates,
  followed by the desired items that are not among them, each once; when the write and
  the read after it succeed it returns changed with the recordset read again. If every
  desired item is among the existing ones and the ttl is the same (or the desired
  content is empty), it makes no call but the first read and returns unchanged.
\<close>

theorem present_nonexclusive_existing:
  assumes "set_iteration set_iter" "p_state m = Present" "\<not> p_exclusive m"
    and "do_read c m s = (Inr record, s1)" "records record \<noteq> []"
    and "sanitize (p_type m) (p_content m) = Some d"
    and "\<forall>item\<in>set d. exact_item (p_type m) item"
  shows
    "(\<not> check_mode m \<and>
      (\<not> set d \<subseteq> set (existing_of record) \<or> (rr_ttl record \<noteq> Some (p_ttl m) \<and> d \<noteq> [])) \<longrightarrow>
        (\<exists>add. distinct add \<and> set add = set d - set (existing_of record) \<and>
           (\<exists>rest. calls_of set_iter c m s =
              read_call m # write_call m (Some (existing_of record @ add)) # rest) \<and>
           (\<forall>u s2 r s3. do_write c m (Some (existing_of record @ add)) s1 = (Inr u, s2) \<and>
                do_read c m s2 = (Inr r, s3) \<longrightarrow>
              ensure set_iter (logged c) m (s, []) =
                (Inr (True, Some r),
                 (s3, [read_call m, write_call m (Some (existing_of record @ add)), read_call m]))))) \<and>
     (set d \<subseteq> set (existing_of record) \<and> (rr_ttl record = Some (p_ttl m) \<or> d = []) \<longrightarrow>
        ensure set_iter (logged c) m (s, []) = (Inr (False, Some record), (s1, [read_call m])))"
proof -
  define added where
    "added = filter (\<lambda>item. item \<notin> set (existing_of record) \<or> rr_ttl record \<noteq> Some (p_ttl m)) d"
  define add where
    "add = filter (\<lambda>item. item \<notin> set (existing_of record)) (set_iter (added @ d))"
  have run: "ensure set_iter (logged c) m (s, []) =
      (if added \<noteq> [] then
         create_and_read (logged c) m CouldNotUpdate (zone_name_of m) (name_of m)
           (Some (existing_of record @ add)) (s1, [read_call m])
       else (Inr (False, Some record), (s1, [read_call m])))"
    using ensure_present_logged [OF assms(4) assms(2), of set_iter]
      ensure_present_existing_exact [OF assms(5) assms(7), of set_iter "logged c"]
    by (simp add: assms(3,6) add_def added_def Let_def)
  have trig: "(added \<noteq> []) =
      (\<not> set d \<subseteq> set (existing_of record) \<or> (rr_ttl record \<noteq> Some (p_ttl m) \<and> d \<noteq> []))"
    by (cases "rr_ttl record = Some (p_ttl m)") (auto simp: added_def filter_empty_conv)
  have sub: "set added \<subseteq> set d" by (auto simp: added_def)
  from assms(1) have it: "distinct (set_iter (added @ d))" "set (set_iter (added @ d)) = set d"
    using sub by (auto simp: set_iteration_def)
  then have ad: "distinct add" "set add = set d - set (existing_of record)"
    by (auto simp: add_def)
  show ?thesis
  proof (intro conjI impI)
    assume a: "\<not> check_mode m \<and>
      (\<not> set d \<subseteq> set (existing_of record) \<or> (rr_ttl record \<noteq> Some (p_ttl m) \<and> d \<noteq> []))"
    with trig run have wr: "ensure set_iter (logged c) m (s, []) =
         create_and_read (logged c) m CouldNotUpdate (zone_name_of m) (name_of m)
           (Some (existing_of record @ add)) (s1, [read_call m])"
      by simp
    from a have nc: "\<not> check_mode m" by simp
    from write_block_logged [OF nc wr] ad
    show "\<exists>add. distinct add \<and> set add = set d - set (existing_of record) \<and>
           (\<exists>rest. calls_of set_iter c m s =
              read_call m # write_call m (Some (existing_of record @ add)) # rest) \<and>
           (\<forall>u s2 r s3. do_write c m (Some (existing_of record @ add)) s1 = (Inr u, s2) \<and>
                do_read c m s2 = (Inr r, s3) \<longrightarrow>
              ensure set_iter (logged c) m (s, []) =
                (Inr (True, Some r),
                 (s3, [read_call m, write_call m (Some (existing_of record @ add)), read_call m])))"
      by (intro exI [of _ add]) blast
  next
    assume "set d \<subseteq> set (existing_of record) \<and> (rr_ttl record = Some (p_ttl m) \<or> d = [])"
    with trig have "added = []" by auto
    with run show "ensure set_iter (logged c) m (s, []) = (Inr (False, Some record), (s1, [read_call m]))"
      by simp
  qed
qed

text \<open>
  Instances: desired one new entry against one stored; desired the stored entry itself.
\<close>

theorem present_nonexclusive_existing_witness:
  "set_iteration remdups \<and>
   fst (ensure remdups (logged store_client)
          (host01\<lparr>p_exclusive := False, p_content := Some [''192.168.1.235'']\<rparr>) (host01_stored, [])) =
     Inr (True, Some \<lparr>records = [\<lparr>e_content = ''192.168.1.234'', e_disabled = False\<rparr>,
                                  \<lparr>e_content = ''192.168.1.235'', e_disabled = False\<rparr>],
                       rr_ttl = Some 86400\<rparr>) \<and>
   calls_of remdups store_client
      (host01\<lparr>p_exclusive := False, p_content := Some [''192.168.1.235'']\<rparr>) host01_stored =
     [read_call host01, write_call host01 (Some [''192.168.1.234'', ''192.168.1.235'']),
      read_call host01] \<and>
   fst (ensure remdups (logged store_client) (host01\<lparr>p_exclusive := False\<rparr>) (host01_stored, [])) =
     Inr (False, Some \<lparr>records = [\<lparr>e_content = ''192.168.1.234'', e_disabled = False\<rparr>],
                        rr_ttl = Some 86400\<rparr>) \<and>
   calls_of remdups store_client (host01\<lparr>p_exclusive := False\<rparr>) host01_stored = [read_call host01]"
  using
    present_nonexclusive_existing [of remdups
      "host01\<lparr>p_exclusive := False, p_content := Some [''192.168.1.235'']\<rparr>" store_client host01_stored
      "\<lparr>records = [\<lparr>e_content = ''192.168.1.234'', e_disabled = False\<rparr>], rr_ttl = Some 86400\<rparr>"
      host01_stored "[''192.168.1.235'']"]
    present_nonexclusive_existing [of remdups "host01\<lparr>p_exclusive := False\<rparr>" store_client host01_stored
      "\<lparr>records = [\<lparr>e_content = ''192.168.1.234'', e_disabled = False\<rparr>], rr_ttl = Some 86400\<rparr>"
      host01_stored "[''192.168.1.234'']"]
    set_iteration_remdups
  by (simp add: run_defs2)

text \<open>
  C3, as the spec states it, has a ttl mismatch alone force a rewrite, and adds exactly
  the desired entries that the comparator does not match. With an empty desired list a
  ttl mismatch rewrites nothing; and an SOA content with serial 0 that the comparator
  matches is added all the same, next to the stored entry.
\<close>

theorem present_nonexclusive_counterexample:
  "rr_ttl \<lparr>records = [\<lparr>e_content = ''192.168.1.234'', e_disabled = False\<rparr>], rr_ttl = Some 86400\<rparr>
     \<noteq> Some (p_ttl (host01\<lparr>p_exclusive := False, p_content := Some [], p_ttl := 3600\<rparr>)) \<and>
   ensure remdups (logged store_client)
      (host01\<lparr>p_exclusive := False, p_content := Some [], p_ttl := 3600\<rparr>) (host01_stored, []) =
     (Inr (False, Some \<lparr>records = [\<lparr>e_content = ''192.168.1.234'', e_disabled = False\<rparr>],
                         rr_ttl = Some 86400\<rparr>),
      (host01_stored, [read_call host01])) \<and>
   matches_existing_content (Some ''SOA'') ''ns1 hostmaster 0 3600'' [''ns1 hostmaster 99 3600'']
     = Inr True \<and>
   calls_of remdups store_client
      (host01\<lparr>p_exclusive := False, p_type := Some ''SOA'',
              p_content := Some [''ns1 hostmaster 0 3600''], p_ttl := 3600\<rparr>) soa_stored =
     [read_call (host01\<lparr>p_type := Some ''SOA''\<rparr>),
      CreateRecord ''localhost'' ''internal.example.com'' ''host01.internal.example.com'' (Some ''SOA'')
        (Some [''ns1 hostmaster 99 3600'', ''ns1 hostmaster 0 3600'']) False 3600 False,
      read_call (host01\<lparr>p_type := Some ''SOA''\<rparr>)]"
  by (simp add: run_defs2)

section \<open>Present, exclusive, empty content\<close>

text \<open>
  C5 (amended): with state present, exclusive on and an empty content list the request
  is not rejected. The first call is the read, and a failed read ends the invocation.
  When the recordset exists, no other call is made and the result is unchanged with the
  recordset read. When it does not exist, outside check mode, the empty list is
  submitted, and when the write and the read after it succeed the result is changed
  with the recordset read again.
\<close>

theorem present_exclusive_empty_content:
  assumes "p_state m = Present" "p_exclusive m" "p_content m = Some []"
  shows
    "(\<forall>e s1. do_read c m s = (Inl e, s1) \<longrightarrow>
        ensure set_iter (logged c) m (s, []) = (Inl e, (s1, [read_call m]))) \<and>
     (\<forall>record s1. do_read c m s = (Inr record, s1) \<and> records record \<noteq> [] \<longrightarrow>
        ensure set_iter (logged c) m (s, []) = (Inr (False, Some record), (s1, [read_call m]))) \<and>
     (\<forall>record s1. \<not> check_mode m \<and> do_read c m s = (Inr record, s1) \<and> records record = [] \<longrightarrow>
        (\<exists>rest. calls_of set_iter c m s = read_call m # write_call m (Some []) # rest) \<and>
        (\<forall>u s2 r s3. do_write c m (Some []) s1 = (Inr u, s2) \<and> do_read c m s2 = (Inr r, s3) \<longrightarrow>
           ensure set_iter (logged c) m (s, []) =
             (Inr (True, Some r), (s3, [read_call m, write_call m (Some []), read_call m]))))"
proof -
  have p1: "ensure set_iter (logged c) m (s, []) = (Inl e, (s1, [read_call m]))"
    if "do_read c m s = (Inl e, s1)" for e s1
  proof -
    from that have "do_read (logged c) m (s, []) = (Inl e, (s1, [read_call m]))" by simp
    then show ?thesis by (rule ensure_read_failed)
  qed
  have p2: "ensure set_iter (logged c) m (s, []) = (Inr (False, Some rset), (s1, [read_call m]))"
    if "do_read c m s = (Inr rset, s1)" "records rset \<noteq> []" for rset s1
    using ensure_present_logged [OF that(1) assms(1), of set_iter] that(2)
    by (simp add: ensure_present_def sanitize_def assms(3))
  have p3: "(\<exists>rest. calls_of set_iter c m s = read_call m # write_call m (Some []) # rest) \<and>
        (\<forall>u s2 r s3. do_write c m (Some []) s1 = (Inr u, s2) \<and> do_read c m s2 = (Inr r, s3) \<longrightarrow>
           ensure set_iter (logged c) m (s, []) =
             (Inr (True, Some r), (s3, [read_call m, write_call m (Some []), read_call m])))"
    if "\<not> check_mode m" "do_read c m s = (Inr rset, s1)" "records rset = []" for rset s1
  proof -
    from ensure_present_logged [OF that(2) assms(1), of set_iter] that(3)
    have wr: "ensure set_iter (logged c) m (s, []) =
        create_and_read (logged c) m CouldNotCreate (zone_name_of m) (name_of m) (Some [])
          (s1, [read_call m])"
      by (simp add: ensure_present_def sanitize_def assms(3))
    from write_block_logged [OF that(1) wr] show ?thesis .
  qed
  show ?thesis
  proof (rule conjI [OF _ conjI])
    show "\<forall>e s1. do_read c m s = (Inl e, s1) \<longrightarrow>
        ensure set_iter (logged c) m (s, []) = (Inl e, (s1, [read_call m]))"
      using p1 by blast
    show "\<forall>record s1. do_read c m s = (Inr record, s1) \<and> records record \<noteq> [] \<longrightarrow>
        ensure set_iter (logged c) m (s, []) = (Inr (False, Some record), (s1, [read_call m]))"
      using p2 by blast
    show "\<forall>record s1. \<not> check_mode m \<and> do_read c m s = (Inr record, s1) \<and> records record = [] \<longrightarrow>
        (\<exists>rest. calls_of set_iter c m s = read_call m # write_call m (Some []) # rest) \<and>
        (\<forall>u s2 r s3. do_write c m (Some []) s1 = (Inr u, s2) \<and> do_read c m s2 = (Inr r, s3) \<longrightarrow>
           ensure set_iter (logged c) m (s, []) =
             (Inr (True, Some r), (s3, [read_call m, write_call m (Some []), read_call m])))"
      by (intro allI impI, elim conjE, rule p3)
  qed
qed

text \<open>
  Instances: the example with an empty content list, against one stored entry and against none.
\<close>

theorem present_exclusive_empty_content_witness:
  "p_state (host01\<lparr>p_content := Some []\<rparr>) = Present \<and>
   p_exclusive (host01\<lparr>p_content := Some []\<rparr>) \<and>
   p_content (host01\<lparr>p_content := Some []\<rparr>) = Some [] \<and>
   ensure remdups (logged store_client) (host01\<lparr>p_content := Some []\<rparr>) (host01_stored, []) =
     (Inr (False, Some \<lparr>records = [\<lparr>e_content = ''192.168.1.234'', e_disabled = False\<rparr>],
                         rr_ttl = Some 86400\<rparr>),
      (host01_stored, [read_call host01])) \<and>
   calls_of remdups store_client (host01\<lparr>p_content := Some []\<rparr>) no_records =
     [read_call host01, write_call host01 (Some []), read_call host01]"
  using
    present_exclusive_empty_content [of "host01\<lparr>p_content := Some []\<rparr>" store_client host01_stored remdups]
    present_exclusive_empty_content [of "host01\<lparr>p_content := Some []\<rparr>" store_client no_records remdups]
  by (simp add: run_defs2)

section \<open>Absent, exclusive\<close>

text \<open>
  With exclusive on, an existing recordset is deleted as a whole: the calls are the read
  and \<^verbatim>\<open>delete_record\<close>, and the result is changed with no recordset.
\<close>

lemma absent_exclusive_existing:
  assumes "p_state m = Absent" "p_exclusive m" "\<not> check_mode m"
    and "do_read c m s = (Inr record, s1)" "records record \<noteq> []"
    and "do_delete c m s1 = (Inr u, s2)"
  shows "ensure set_iter (logged c) m (s, []) =
           (Inr (True, None), (s2, [read_call m, delete_call m]))"
  using ensure_absent_logged [OF assms(4) assms(1), of set_iter] assms(2,3,5,6)
  by (simp add: ensure_absent_def delete_all_def)

section \<open>Absent, not exclusive\<close>

lemma absent_nonexclusive_existing:
  assumes "p_state m = Absent" "\<not> p_exclusive m"
    and "do_read c m s = (Inr record, s1)" "records record \<noteq> []"
    and "sanitize (p_type m) (p_content m) = Some d"
  shows
    "(\<not> check_mode m \<and> set d \<inter> set (existing_of record) \<noteq> {} \<longrightarrow>
        (\<exists>rest. calls_of set_iter c m s =
           read_call m #
           write_call m (Some (filter (\<lambda>item. item \<notin> set d) (existing_of record))) # rest)) \<and>
     (set d \<inter> set (existing_of record) = {} \<longrightarrow>
        ensure set_iter (logged c) m (s, []) = (Inr (False, Some record), (s1, [read_call m])))"
proof -
  have len: "(length (filter (\<lambda>item. item \<notin> set d) (existing_of record)) \<noteq> length (existing_of record))
      = (set d \<inter> set (existing_of record) \<noteq> {})"
  proof (cases "\<forall>x\<in>set (existing_of record). x \<notin> set d")
    case True
    then have "filter (\<lambda>item. item \<notin> set d) (existing_of record) = existing_of record"
      by (simp only: filter_id_conv)
    with True show ?thesis by auto
  next
    case False
    then obtain x where x: "x \<in> set (existing_of record)" "\<not> x \<notin> set d" by blast
    from length_filter_less [of x "existing_of record" "\<lambda>item. item \<notin> set d"] x
    show ?thesis by auto
  qed
  have run: "ensure set_iter (logged c) m (s, []) =
      (if set d \<inter> set (existing_of record) \<noteq> {} then
         create_and_read (logged c) m CouldNotDelete (zone_name_of m) (name_of m)
           (Some (filter (\<lambda>item. item \<notin> set d) (existing_of record))) (s1, [read_call m])
       else (Inr (False, Some record), (s1, [read_call m])))"
    using ensure_absent_logged [OF assms(3) assms(1), of set_iter] assms(2,4) len
    by (simp add: ensure_absent_def assms(5) Let_def)
  show ?thesis
  proof (intro conjI impI)
    assume a: "\<not> check_mode m \<and> set d \<inter> set (existing_of record) \<noteq> {}"
    with run have wr: "ensure set_iter (logged c) m (s, []) =
         create_and_read (logged c) m CouldNotDelete (zone_name_of m) (name_of m)
           (Some (filter (\<lambda>item. item \<notin> set d) (existing_of record))) (s1, [read_call m])"
      by simp
    from a have nc: "\<not> check_mode m" by simp
    from write_block_logged [OF nc wr]
    show "\<exists>rest. calls_of set_iter c m s =
           read_call m #
           write_call m (Some (filter (\<lambda>item. item \<notin> set d) (existing_of record))) # rest"
      by blast
  next
    assume "set d \<inter> set (existing_of record) = {}"
    with run show "ensure set_iter (logged c) m (s, []) = (Inr (False, Some record), (s1, [read_call m]))"
      by simp
  qed
qed



section \<open>The storing remote: facts\<close>

lemma store_read: "do_read store_client m st = (Inr (stored st m), st)"
  by (simp add: store_client_def stored_def key_of_def)

lemma store_write: "do_write store_client m payload st = (Inr (), written st m payload)"
  by (simp add: store_client_def written_def key_of_def)

lemma store_delete: "do_delete store_client m st = (Inr (), st(key_of m := None))"
  by (simp add: store_client_def key_of_def)

lemma existing_written: "existing_of (stored (written st m (Some P)) m) = P"
  by (simp add: stored_def written_def request_records_def comp_def)

lemma ttl_written: "P \<noteq> [] \<Longrightarrow> rr_ttl (stored (written st m (Some P)) m) = Some (p_ttl m)"
  by (simp add: stored_def written_def request_records_def)

lemma existing_deleted: "existing_of (stored (st(key_of m := None)) m) = []"
  by (simp add: stored_def)

lemma create_and_read_store:
  "\<not> check_mode m \<Longrightarrow>
   create_and_read store_client m k (zone_name_of m) (name_of m) payload st =
     (Inr (True, Some (stored (written st m payload) m)), written st m payload)"
  by (simp add: create_and_read_def store_read store_write)

lemma delete_all_store:
  "\<not> check_mode m \<Longrightarrow>
   delete_all store_client m (zone_name_of m) (name_of m) st = (Inr (True, None), st(key_of m := None))"
  by (simp add: delete_all_def store_delete)

section \<open>A recordset that already holds the desired state\<close>

lemma collect_items_settled:
  "\<forall>item\<in>set items. matches_existing_content rtype item existing = Inr True \<Longrightarrow>
   collect_items rtype existing (Some ttl) ttl acc items = Inr acc"
  by (induction items arbitrary: acc) simp_all

lemma collect_items_subset:
  "collect_items rtype existing rttl ttl acc items = Inr res \<Longrightarrow> set res \<subseteq> set acc \<union> set items"
proof (induction items arbitrary: acc)
  case Nil
  then show ?case by simp
next
  case (Cons item items)
  then show ?case by (fastforce split: sum.splits if_splits)
qed

lemma ensure_present_settled:
  assumes "existing_of record \<noteq> []" "rr_ttl record = Some (p_ttl m)"
    and "set d \<subseteq> set (existing_of record)"
    and "p_exclusive m \<longrightarrow> set (existing_of record) = set d"
    and "p_type m = Some ''SOA'' \<longrightarrow> (\<forall>item\<in>set d. 3 \<le> length (split_sp item))"
  shows "ensure_present set_iter c m z n record (Some d) s = (Inr (False, Some record), s)"
proof -
  have "\<forall>item\<in>set d. matches_existing_content (p_type m) item (existing_of record) = Inr True"
    using assms(3,5) by (auto intro!: matches_member)
  then have col: "collect_items (p_type m) (existing_of record) (rr_ttl record) (p_ttl m) [] d = Inr []"
    unfolding assms(2) by (rule collect_items_settled)
  have "\<not> (length (remdups d) < length (remdups (existing_of record)) \<and> p_exclusive m)"
    using assms(4) by (auto simp: length_remdups_card_conv)
  with col assms(1) show ?thesis
    by (auto simp: ensure_present_def Let_def)
qed

lemma ensure_absent_settled:
  assumes "existing_of record = [] \<or> (\<not> p_exclusive m \<and> content = Some d \<and> set d \<inter> set (existing_of record) = {})"
  shows "ensure_absent c m z n record content s = (Inr (False, Some record), s)"
proof -
  have "filter (\<lambda>item. item \<notin> set d) (existing_of record) = existing_of record"
    if "set d \<inter> set (existing_of record) = {}"
    using that by (auto simp only: filter_id_conv)
  with assms show ?thesis
    by (auto simp: ensure_absent_def Let_def)
qed

section \<open>What a reported change has done\<close>

lemma ensure_present_unchanged:
  "ensure_present set_iter c m z n record content s = (Inr (False, r), s1) \<Longrightarrow> s1 = s"
  by (auto simp: ensure_present_def Let_def split: option.splits sum.splits if_splits
      dest: create_and_read_changed)

lemma ensure_absent_unchanged:
  "ensure_absent c m z n record content s = (Inr (False, r), s1) \<Longrightarrow> s1 = s"
  by (auto simp: ensure_absent_def Let_def split: option.splits sum.splits if_splits
      dest: create_and_read_changed delete_all_changed)

lemma ensure_present_changed:
  assumes "set_iteration set_iter" "d \<noteq> []"
    and "ensure_present set_iter c m z n record (Some d) s = (Inr (True, r), s1)"
  shows "\<exists>k P. create_and_read c m k z n (Some P) s = (Inr (True, r), s1) \<and> P \<noteq> [] \<and>
           set d \<subseteq> set P \<and> (p_exclusive m \<longrightarrow> set P = set d)"
proof (cases "existing_of record = []")
  case True
  with assms(3) have "create_and_read c m CouldNotCreate z n (Some d) s = (Inr (True, r), s1)"
    by (simp add: ensure_present_def)
  with assms(2) show ?thesis by blast
next
  case False
  from assms(3) False obtain added where
    col: "collect_items (p_type m) (existing_of record) (rr_ttl record) (p_ttl m) [] d = Inr added"
    by (auto simp: ensure_present_def Let_def split: sum.splits)
  define rc where
    "rc = (if length (remdups d) < length (remdups (existing_of record)) \<and> p_exclusive m
           then d else added)"
  define P where
    "P = (if \<not> p_exclusive m
          then existing_of record @
                 filter (\<lambda>item. item \<notin> set (existing_of record)) (set_iter (rc @ d))
          else set_iter (rc @ d))"
  from collect_items_subset [OF col] have "set rc \<subseteq> set d" by (auto simp: rc_def)
  with assms(1) have it: "set (set_iter (rc @ d)) = set d" by (auto simp: set_iteration_def)
  have run: "create_and_read c m CouldNotUpdate z n (Some P) s = (Inr (True, r), s1)"
    using assms(3) False col
    by (simp add: ensure_present_def Let_def rc_def [symmetric] P_def [symmetric] split: if_splits)
  have "P \<noteq> []" using False it assms(2) by (auto simp: P_def)
  moreover have "set d \<subseteq> set P" using it by (auto simp: P_def)
  moreover have "p_exclusive m \<longrightarrow> set P = set d" using it by (simp add: P_def)
  ultimately show ?thesis using run by blast
qed

lemma ensure_absent_changed:
  assumes "ensure_absent c m z n record content s = (Inr (True, r), s1)"
  shows "(p_exclusive m \<and> delete_all c m z n s = (Inr (True, r), s1)) \<or>
         (\<not> p_exclusive m \<and>
          (\<exists>d. content = Some d \<and>
             create_and_read c m CouldNotDelete z n
               (Some (filter (\<lambda>item. item \<notin> set d) (existing_of record))) s = (Inr (True, r), s1)))"
  using assms
  by (auto simp: ensure_absent_def Let_def split: option.splits if_splits)

lemma sanitize_nonempty:
  assumes "c \<noteq> []"
  shows "\<exists>d. sanitize rtype (Some c) = Some d \<and> d \<noteq> [] \<and> (rtype = Some ''SOA'' \<longrightarrow> d = c)"
  using assms by (simp add: sanitize_def Let_def)


section \<open>Invoking twice\<close>

lemma second_run_after_change:
  assumes it: "set_iteration set_iter" and nc: "\<not> check_mode m"
    and run1: "ensure set_iter store_client m st = (Inr (True, r), st1)"
    and pres: "p_state m = Present \<longrightarrow>
      (\<exists>c. p_content m = Some c \<and> c \<noteq> [] \<and>
           (p_type m = Some ''SOA'' \<longrightarrow> (\<forall>item\<in>set c. 3 \<le> length (split_sp item))))"
  shows "ensure set_iter store_client m st1 = (Inr (False, Some (stored st1 m)), st1)"
proof (cases "p_state m")
  case Present
  with pres obtain c where c: "p_content m = Some c" "c \<noteq> []"
    "p_type m = Some ''SOA'' \<longrightarrow> (\<forall>item\<in>set c. 3 \<le> length (split_sp item))"
    by blast
  from sanitize_nonempty [OF c(2), of "p_type m"] obtain d where
    d: "sanitize (p_type m) (p_content m) = Some d" "d \<noteq> []" "p_type m = Some ''SOA'' \<longrightarrow> d = c"
    unfolding c(1) by blast
  from run1 ensure_present_eq [OF store_read [of m st] Present, of set_iter]
  have "ensure_present set_iter store_client m (zone_name_of m) (name_of m) (stored st m) (Some d) st
          = (Inr (True, r), st1)"
    by (simp add: d(1))
  from ensure_present_changed [OF it d(2) this] obtain k P where
    P: "create_and_read store_client m k (zone_name_of m) (name_of m) (Some P) st = (Inr (True, r), st1)"
      "P \<noteq> []" "set d \<subseteq> set P" "p_exclusive m \<longrightarrow> set P = set d"
    by blast
  from P(1) create_and_read_store [OF nc, of k "Some P" st]
  have st1: "st1 = written st m (Some P)" by simp
  have ex: "existing_of (stored st1 m) = P" unfolding st1 by (rule existing_written)
  have ttl: "rr_ttl (stored st1 m) = Some (p_ttl m)" unfolding st1 using P(2) by (rule ttl_written)
  have wf: "p_type m = Some ''SOA'' \<longrightarrow> (\<forall>item\<in>set d. 3 \<le> length (split_sp item))"
    using c(3) d(3) by simp
  have "ensure_present set_iter store_client m (zone_name_of m) (name_of m) (stored st1 m) (Some d) st1
          = (Inr (False, Some (stored st1 m)), st1)"
    using P(2,3,4) ttl wf by (intro ensure_present_settled) (simp_all add: ex)
  with ensure_present_eq [OF store_read [of m st1] Present, of set_iter] show ?thesis
    by (simp add: d(1))
next
  case Absent
  from run1 ensure_absent_eq [OF store_read [of m st] Absent, of set_iter]
  have "ensure_absent store_client m (zone_name_of m) (name_of m) (stored st m)
          (sanitize (p_type m) (p_content m)) st = (Inr (True, r), st1)"
    by simp
  from ensure_absent_changed [OF this]
  have "ensure_absent store_client m (zone_name_of m) (name_of m) (stored st1 m)
          (sanitize (p_type m) (p_content m)) st1 = (Inr (False, Some (stored st1 m)), st1)"
  proof (elim disjE conjE exE)
    assume "delete_all store_client m (zone_name_of m) (name_of m) st = (Inr (True, r), st1)"
    with delete_all_store [OF nc, of st] have "st1 = st(key_of m := None)" by simp
    then have "existing_of (stored st1 m) = []" by (simp only: existing_deleted)
    then show ?thesis by (intro ensure_absent_settled) simp
  next
    fix d
    assume ne: "\<not> p_exclusive m" and d: "sanitize (p_type m) (p_content m) = Some d"
      and "create_and_read store_client m CouldNotDelete (zone_name_of m) (name_of m)
             (Some (filter (\<lambda>item. item \<notin> set d) (existing_of (stored st m)))) st = (Inr (True, r), st1)"
    with create_and_read_store [OF nc, of CouldNotDelete _ st]
    have "st1 = written st m (Some (filter (\<lambda>item. item \<notin> set d) (existing_of (stored st m))))"
      by simp
    then have "existing_of (stored st1 m) = filter (\<lambda>item. item \<notin> set d) (existing_of (stored st m))"
      by (simp only: existing_written)
    then have "set d \<inter> set (existing_of (stored st1 m)) = {}" by auto
    with ne d show ?thesis by (intro ensure_absent_settled [where d = d]) simp
  qed
  with ensure_absent_eq [OF store_read [of m st1] Absent, of set_iter] show ?thesis by simp
qed

lemma first_run_unchanged:
  assumes "ensure set_iter store_client m st = (Inr (False, r), st1)"
  shows "st1 = st"
proof (cases "p_state m")
  case Present
  from assms ensure_present_eq [OF store_read [of m st] Present, of set_iter]
  show ?thesis by (auto dest: ensure_present_unchanged)
next
  case Absent
  from assms ensure_absent_eq [OF store_read [of m st] Absent, of set_iter]
  show ?thesis by (auto dest: ensure_absent_unchanged)
qed

text \<open>
  C1 (amended): against a remote that stores what it is sent, outside check mode, and
  for a desired state that with state present has a content list that is not empty (for
  type SOA: entries of at least three fields): when the first invocation returns, the
  second invocation with the same parameters, on the remote state the first one left,
  returns unchanged and leaves that state as it is. (With state present and such a
  content the first invocation always returns: lemma \<open>first_run_returns\<close>.)
\<close>

theorem ensure_twice_unchanged:
  assumes "set_iteration set_iter" "\<not> check_mode m"
    and "ensure set_iter store_client m st = (Inr (changed, r), st1)"
    and "p_state m = Present \<longrightarrow>
      (\<exists>c. p_content m = Some c \<and> c \<noteq> [] \<and>
           (p_type m = Some ''SOA'' \<longrightarrow> (\<forall>item\<in>set c. 3 \<le> length (split_sp item))))"
  shows "\<exists>r2. ensure set_iter store_client m st1 = (Inr (False, r2), st1)"
proof (cases changed)
  case True
  with assms(3) have "ensure set_iter store_client m st = (Inr (True, r), st1)" by simp
  from second_run_after_change [OF assms(1,2) this assms(4)] show ?thesis by blast
next
  case False
  with assms(3) have run: "ensure set_iter store_client m st = (Inr (False, r), st1)" by simp
  from first_run_unchanged [OF this] run show ?thesis by blast
qed

text \<open>
  An instance: the example creates its recordset, and run again changes nothing.
\<close>

theorem ensure_twice_unchanged_witness:
  "set_iteration remdups \<and> \<not> check_mode host01 \<and>
   changed_flag (ensure remdups store_client host01 no_records) = Some True \<and>
   snd (ensure remdups store_client host01 no_records) = host01_stored \<and>
   ensure remdups store_client host01 host01_stored =
     (Inr (False, Some \<lparr>records = [\<lparr>e_content = ''192.168.1.234'', e_disabled = False\<rparr>],
                         rr_ttl = Some 86400\<rparr>), host01_stored)"
  using ensure_twice_unchanged [of remdups host01 no_records True
      "Some \<lparr>records = [\<lparr>e_content = ''192.168.1.234'', e_disabled = False\<rparr>], rr_ttl = Some 86400\<rparr>"
      host01_stored]
    set_iteration_remdups
  by (simp add: run_defs2)

text \<open>
  C1, as the spec states it, holds for every desired state. With state present and an
  empty content list, and no recordset stored, every invocation submits the empty list
  and reports a change. With type SOA and a content of fewer than three fields, the
  first invocation creates the recordset and the second raises \<^verbatim>\<open>IndexError\<close> in the
  comparator.
\<close>

theorem ensure_twice_counterexample:
  "changed_flag (ensure remdups store_client
      (host01\<lparr>p_exclusive := False, p_content := Some []\<rparr>) no_records) = Some True \<and>
   changed_flag (ensure remdups store_client (host01\<lparr>p_exclusive := False, p_content := Some []\<rparr>)
      (snd (ensure remdups store_client
              (host01\<lparr>p_exclusive := False, p_content := Some []\<rparr>) no_records))) = Some True \<and>
   changed_flag (ensure remdups store_client
      (host01\<lparr>p_type := Some ''SOA'', p_content := Some [''ns1 hostmaster'']\<rparr>) no_records) = Some True \<and>
   fst (ensure remdups store_client
      (host01\<lparr>p_type := Some ''SOA'', p_content := Some [''ns1 hostmaster'']\<rparr>)
      (snd (ensure remdups store_client
              (host01\<lparr>p_type := Some ''SOA'', p_content := Some [''ns1 hostmaster'']\<rparr>) no_records)))
     = Inl IndexError"
  by (simp add: run_defs2)


lemma matches_well_formed:
  assumes "rtype = Some ''SOA'' \<longrightarrow> 3 \<le> length (split_sp item)"
  shows "\<exists>b. matches_existing_content rtype item existing = Inr b"
  using assms by (auto simp: matches_existing_content_def serial_def Let_def)

lemma collect_items_well_formed:
  assumes "\<forall>item\<in>set items. rtype = Some ''SOA'' \<longrightarrow> 3 \<le> length (split_sp item)"
  shows "\<exists>res. collect_items rtype existing rttl ttl acc items = Inr res"
  using assms
proof (induction items arbitrary: acc)
  case Nil
  then show ?case by simp
next
  case (Cons item items)
  from Cons.prems obtain b where "matches_existing_content rtype item existing = Inr b"
    using matches_well_formed [of rtype item existing] by auto
  with Cons show ?case by simp
qed

lemma sanitize_some:
  "\<exists>d. sanitize rtype (Some c) = Some d \<and> (rtype = Some ''SOA'' \<longrightarrow> d = c)"
  by (simp add: sanitize_def Let_def)

lemma first_run_returns:
  assumes "\<not> check_mode m" "p_state m = Present" "p_content m = Some c"
    and "p_type m = Some ''SOA'' \<longrightarrow> (\<forall>item\<in>set c. 3 \<le> length (split_sp item))"
  shows "\<exists>changed r st1. ensure set_iter store_client m st = (Inr (changed, r), st1)"
proof -
  obtain d where d: "sanitize (p_type m) (p_content m) = Some d" "p_type m = Some ''SOA'' \<longrightarrow> d = c"
    using sanitize_some [of "p_type m" c] unfolding assms(3) by blast
  with assms(4) have "\<forall>item\<in>set d. p_type m = Some ''SOA'' \<longrightarrow> 3 \<le> length (split_sp item)"
    by auto
  from collect_items_well_formed [OF this] obtain res where
    "collect_items (p_type m) (existing_of (stored st m)) (rr_ttl (stored st m)) (p_ttl m) [] d = Inr res"
    by blast
  then have "\<exists>changed r st1.
      ensure_present set_iter store_client m (zone_name_of m) (name_of m) (stored st m) (Some d) st
        = (Inr (changed, r), st1)"
    by (auto simp: ensure_present_def Let_def create_and_read_store [OF assms(1)])
  with ensure_present_eq [OF store_read [of m st] assms(2), of set_iter] d(1) show ?thesis
    by simp
qed


end
